theory Spec2Isabelle
  imports Complex_Main "HOL-Library.Multiset"
begin

section \<open>Numbers, vectors and planes\<close>

text \<open>
  The program computes with JavaScript numbers (IEEE doubles). They are idealised here as
  the reals: \<open>+\<close>, \<open>-\<close>, \<open>*\<close>, \<open>/\<close>, \<open>Math.sqrt\<close> and the comparisons are the exact ones,
  and the literal \<open>1e-5\<close> is the real \<open>1 / 100000\<close>. A double computation can
  round a distance across the threshold \<open>1e-5\<close> where the real one does not. The
  properties below are therefore about which bucket a polygon or a vertex is routed to,
  and about the shape of the tree, given the outcome of the comparisons \<open>d > 1e-5\<close> and
  \<open>d < -1e-5\<close>: their hypotheses are stated on how vertices classify, and no proof uses
  a fact of exact geometry (such as: a point of a plane is at distance zero from the plane
  computed through three of its points).
\<close>

text \<open>\<open>function Vector(x, y, z)\<close>, the three-argument form.\<close>

datatype Vector = Vector (vx: real) (vy: real) (vz: real)

definition Vector_plus :: "Vector \<Rightarrow> Vector \<Rightarrow> Vector" where
  "Vector_plus this other = Vector (vx this + vx other) (vy this + vy other) (vz this + vz other)"

definition Vector_minus :: "Vector \<Rightarrow> Vector \<Rightarrow> Vector" where
  "Vector_minus this other = Vector (vx this - vx other) (vy this - vy other) (vz this - vz other)"

definition Vector_times :: "Vector \<Rightarrow> real \<Rightarrow> Vector" where
  "Vector_times this t = Vector (vx this * t) (vy this * t) (vz this * t)"

definition Vector_divide :: "Vector \<Rightarrow> real \<Rightarrow> Vector" where
  "Vector_divide this t = Vector (vx this / t) (vy this / t) (vz this / t)"

definition Vector_dot :: "Vector \<Rightarrow> Vector \<Rightarrow> real" where
  "Vector_dot this other = vx this * vx other + vy this * vy other + vz this * vz other"

definition Vector_cross :: "Vector \<Rightarrow> Vector \<Rightarrow> Vector" where
  "Vector_cross this other = Vector
     (vy this * vz other - vz this * vy other)
     (vz this * vx other - vx this * vz other)
     (vx this * vy other - vy this * vx other)"

definition Vector_magnitude :: "Vector \<Rightarrow> real" where
  "Vector_magnitude this = sqrt (Vector_dot this this)"

definition Vector_flip :: "Vector \<Rightarrow> Vector" where
  "Vector_flip this = Vector_times this (- 1)"

definition Vector_unit :: "Vector \<Rightarrow> Vector" where
  "Vector_unit this = Vector_divide this (Vector_magnitude this)"

definition Vector_lerp :: "Vector \<Rightarrow> Vector \<Rightarrow> real \<Rightarrow> Vector" where
  "Vector_lerp this other t = Vector_plus (Vector_times this (1 - t)) (Vector_times other t)"

definition Vector_clone :: "Vector \<Rightarrow> Vector" where
  "Vector_clone this = Vector (vx this) (vy this) (vz this)"

text \<open>\<open>function Plane(normal, p)\<close>; the field \<open>p\<close> is the selector \<open>plane_p\<close>.\<close>

datatype Plane = Plane (normal: Vector) (plane_p: real)

definition Plane_ofTriangle :: "Vector \<Rightarrow> Vector \<Rightarrow> Vector \<Rightarrow> Plane" where
  "Plane_ofTriangle a b c =
     (let u = Vector_minus a b;
          v = Vector_minus c b;
          n = Vector_unit (Vector_cross v u);
          p = - Vector_dot n a
      in Plane n p)"

definition Plane_flip :: "Plane \<Rightarrow> Plane" where
  "Plane_flip this = Plane (Vector_flip (normal this)) (- plane_p this)"

definition Plane_clone :: "Plane \<Rightarrow> Plane" where
  "Plane_clone this = Plane (normal this) (plane_p this)"

section \<open>Polygons\<close>

text \<open>
  \<open>function Polygon(vertices, color)\<close>. The colour is an opaque payload, hence a type
  parameter. The constructor reads \<open>vertices[0]\<close>, \<open>vertices[1]\<close> and \<open>vertices[2]\<close>;
  with fewer than three vertices one of them is \<open>undefined\<close> and \<open>Plane.ofTriangle\<close>
  throws a TypeError when it reads a coordinate of it.
\<close>

datatype error = TypeError

record 'c Polygon =
  vertices :: "Vector list"
  color :: 'c
  plane :: Plane

definition Polygon_new :: "Vector list \<Rightarrow> 'c \<Rightarrow> error + 'c Polygon" where
  "Polygon_new vs col =
     (if length vs < 3 then Inl TypeError
      else Inr \<lparr>vertices = vs, color = col,
                plane = Plane_ofTriangle (vs ! 0) (vs ! 1) (vs ! 2)\<rparr>)"

definition Polygon_clone :: "'c Polygon \<Rightarrow> error + 'c Polygon" where
  "Polygon_clone this = Polygon_new (map Vector_clone (vertices this)) (color this)"

definition Polygon_flip :: "'c Polygon \<Rightarrow> error + 'c Polygon" where
  "Polygon_flip this =
     (case Polygon_clone this of
        Inl e \<Rightarrow> Inl e
      | Inr copy \<Rightarrow>
          Inr (copy\<lparr>vertices := rev (vertices copy), plane := Plane_flip (plane copy)\<rparr>))"

section \<open>Plane.bisect\<close>

text \<open>
  \<open>bisect\<close> pushes onto the four arrays it is handed, and its callers hand it the same
  array twice (\<open>trim\<close>: \<open>out, out, inside, inside\<close>; \<open>Partition\<close>:
  \<open>left, root.polygons, right, root.polygons\<close>). The arrays of a caller are therefore a
  store from array names \<open>'r\<close> to contents, and \<open>bisect\<close> takes four names.
\<close>

type_synonym ('r, 'c) arrays = "'r \<Rightarrow> 'c Polygon list"

definition push :: "'r \<Rightarrow> 'c Polygon \<Rightarrow> ('r, 'c) arrays \<Rightarrow> ('r, 'c) arrays" where
  "push a q s = s(a := s a @ [q])"

text \<open>The strings \<open>"front"\<close>, \<open>"back"\<close> and \<open>"plane"\<close> of the \<open>location\<close> array.\<close>

datatype location = LFront | LBack | LPlane

definition epsilon :: real where
  "epsilon = 1 / 100000"

definition distance :: "Plane \<Rightarrow> Vector \<Rightarrow> real" where
  "distance this v = Vector_dot (normal this) v + plane_p this"

definition classify :: "Plane \<Rightarrow> Vector \<Rightarrow> location" where
  "classify this v =
     (let d = distance this v
      in if d > epsilon then LFront
         else if d < - epsilon then LBack
         else LPlane)"

definition isCoplanar :: "location list \<Rightarrow> bool" where
  "isCoplanar loc = foldl (\<lambda>acc x. acc \<and> x = LPlane) True loc"

text \<open>One round of the second loop of \<open>bisect\<close>, at index \<open>i\<close>.\<close>

definition bisect_iter ::
  "Plane \<Rightarrow> Vector list \<Rightarrow> location list \<Rightarrow> Vector list \<times> Vector list \<Rightarrow> nat
   \<Rightarrow> Vector list \<times> Vector list" where
  "bisect_iter this vs loc acc i =
     (let vert1 = vs ! i;
          loc1 = loc ! i;
          vert2 = vs ! ((i + 1) mod length vs);
          loc2 = loc ! ((i + 1) mod length vs);
          (newFront, newBack) =
            (if loc1 = LFront then (fst acc @ [vert1], snd acc)
             else if loc1 = LBack then (fst acc, snd acc @ [vert1])
             else (fst acc @ [vert1], snd acc @ [Vector_clone vert1]))
      in if loc1 \<noteq> loc2 \<and> loc1 \<noteq> LPlane \<and> loc2 \<noteq> LPlane then
           (let V = Vector_minus vert2 vert1;
                t = - (Vector_dot vert1 (normal this) + plane_p this) / Vector_dot V (normal this);
                bisectPoint = Vector_lerp vert1 vert2 t
            in (newFront @ [bisectPoint], newBack @ [Vector_clone bisectPoint]))
         else (newFront, newBack))"

definition bisect_walk :: "Plane \<Rightarrow> Vector list \<Rightarrow> location list \<Rightarrow> Vector list \<times> Vector list" where
  "bisect_walk this vs loc = foldl (bisect_iter this vs loc) ([], []) [0..<length vs]"

text \<open>
  \<open>if (vs.length >= 3) arr.push(new Polygon(vs, color))\<close>. Under the guard the
  constructor cannot throw (\<open>Polygon_new_Inr\<close> below), so its error branch is dead.
\<close>

definition emit :: "'r \<Rightarrow> Vector list \<Rightarrow> 'c \<Rightarrow> ('r, 'c) arrays \<Rightarrow> ('r, 'c) arrays" where
  "emit arr vs col s =
     (if length vs \<ge> 3 then
        (case Polygon_new vs col of Inr q \<Rightarrow> push arr q s | Inl e \<Rightarrow> s)
      else s)"

definition bisect ::
  "Plane \<Rightarrow> 'c Polygon \<Rightarrow> 'r \<Rightarrow> 'r \<Rightarrow> 'r \<Rightarrow> 'r \<Rightarrow> ('r, 'c) arrays \<Rightarrow> ('r, 'c) arrays" where
  "bisect this polygon front samePlane behind reversePlane s =
     (let loc = map (classify this) (vertices polygon)
      in if isCoplanar loc then
           (if Vector_dot (normal this) (normal (plane polygon)) > 0
            then push samePlane polygon s
            else push reversePlane polygon s)
         else
           (let (newFront, newBack) = bisect_walk this (vertices polygon) loc
            in emit behind newBack (color polygon)
                 (emit front newFront (color polygon) s)))"

section \<open>BSP trees\<close>

datatype 'c BSPNode = BSPNode
  (hyperPlane: "Plane option")
  (polygons: "'c Polygon list")
  (front: "'c BSPNode option")
  (behind: "'c BSPNode option")

definition new_BSPNode :: "'c BSPNode" where
  "new_BSPNode = BSPNode None [] None None"

subsection \<open>trim\<close>

datatype trim_array = Out | Inside

text \<open>The for loop of \<open>trim\<close>: the contents of \<open>out\<close> and \<open>inside\<close> after it.\<close>

definition trim_loop :: "Plane \<Rightarrow> 'c Polygon list \<Rightarrow> (trim_array, 'c) arrays" where
  "trim_loop hp polys =
     foldl (\<lambda>s poly. bisect hp poly Out Out Inside Inside s) (\<lambda>_. []) polys"

fun trim :: "'c BSPNode \<Rightarrow> 'c Polygon list \<Rightarrow> 'c Polygon list" where
  "trim (BSPNode hp ps f b) polys =
     (case hp of
        None \<Rightarrow> map (\<lambda>p. p) polys
      | Some h \<Rightarrow>
          (let s = trim_loop h polys;
               out = (case f of Some fr \<Rightarrow> trim fr (s Out) | None \<Rightarrow> s Out);
               inside = (case b of Some bh \<Rightarrow> trim bh (s Inside) | None \<Rightarrow> [])
           in out @ inside))"

subsection \<open>Partition\<close>

datatype partition_array = Left | Right | RootPolygons

text \<open>The \<open>forEach\<close> of \<open>Partition\<close>, started with the polygons the root already holds.\<close>

definition partition_loop ::
  "Plane \<Rightarrow> 'c Polygon list \<Rightarrow> 'c Polygon list \<Rightarrow> (partition_array, 'c) arrays" where
  "partition_loop hp rootPolys polys =
     foldl (\<lambda>s poly. bisect hp poly Left RootPolygons Right RootPolygons s)
       (\<lambda>r. case r of RootPolygons \<Rightarrow> rootPolys | _ \<Rightarrow> []) polys"

text \<open>
  \<open>BSPNode.Partition(polygons, tree)\<close>. Both arguments may be absent. The function
  mutates the tree it is given, so the model returns the returned value together with the
  supplied tree as it is after the call (absent if none was supplied). The recursive calls
  hand over a child node and ignore the returned value: the parent reads the child as it is
  after the call. The recursion need not end (a polygon that is not coplanar with its own
  plane is handed down for ever), so it runs on fuel: \<open>None\<close> is "fuel exhausted".
\<close>

fun Partition ::
  "nat \<Rightarrow> 'c Polygon list option \<Rightarrow> 'c BSPNode option
   \<Rightarrow> ('c BSPNode option \<times> 'c BSPNode option) option" where
  "Partition fuel None tree = Some (None, tree)"
| "Partition fuel (Some []) tree = Some (None, tree)"
| "Partition 0 (Some (p0 # rest)) tree = None"
| "Partition (Suc fuel) (Some (p0 # rest)) tree =
     (let root = (case tree of Some t \<Rightarrow> t | None \<Rightarrow> new_BSPNode);
          hp = Plane_clone (plane p0);
          s = partition_loop hp (polygons root) (p0 # rest);
          left = s Left;
          right = s Right
      in case (if left \<noteq> []
               then map_option snd
                      (Partition fuel (Some left)
                         (Some (case front root of None \<Rightarrow> new_BSPNode | Some f \<Rightarrow> f)))
               else Some (front root)) of
           None \<Rightarrow> None
         | Some front' \<Rightarrow>
             (case (if right \<noteq> []
                    then map_option snd
                           (Partition fuel (Some right)
                              (Some (case behind root of None \<Rightarrow> new_BSPNode | Some b \<Rightarrow> b)))
                    else Some (behind root)) of
                None \<Rightarrow> None
              | Some behind' \<Rightarrow>
                  (let root' = BSPNode (Some hp) (s RootPolygons) front' behind'
                   in Some (Some root', map_option (\<lambda>t. root') tree))))"

subsection \<open>Flattening\<close>

fun concatPolys :: "'c BSPNode \<Rightarrow> 'c Polygon list" where
  "concatPolys (BSPNode hp ps f b) =
     map (\<lambda>poly. poly) ps
     @ (case f of Some fr \<Rightarrow> concatPolys fr | None \<Rightarrow> [])
     @ (case b of Some bh \<Rightarrow> concatPolys bh | None \<Rightarrow> [])"





section \<open>The same operations on objects and arrays held by reference\<close>

text \<open>
  Whether a call changes what the caller owns depends on which objects are shared, so here
  polygons and arrays live in a store and are handled by reference. A polygon object has the
  fields \<open>vertices\<close> (a reference to an array of vectors), \<open>color\<close> and \<open>plane\<close>. Vectors
  and planes are values: no statement of the program assigns to a field of one after its
  constructor. A tree node is a value holding the reference of its \<open>polygons\<close> array: nodes
  are created inside the tree code only and are reachable from its local variables only, so
  the in-place updates of a node are state passing, as above. References are numbered in
  the order of allocation; the numbering is not observable by the program. A program
  returns a value and the store, throws with the store as it is at the throw, or has its
  recursion cut off when the fuel is used up, again with the store as it is at that moment
  (an engine cuts a recursion that is too deep with a RangeError).
\<close>

record 'c PolygonObj =
  o_vertices :: nat
  o_color :: 'c
  o_plane :: Plane

record 'c heap =
  polygon_arrays :: "nat \<Rightarrow> nat list"
  vertex_arrays :: "nat \<Rightarrow> Vector list"
  polygon_objs :: "nat \<Rightarrow> 'c PolygonObj"
  next_ref :: nat

datatype ('a, 'c) outcome = Ok 'a "'c heap" | Throw error "'c heap" | OutOfFuel "'c heap"

type_synonym ('a, 'c) prog = "'c heap \<Rightarrow> ('a, 'c) outcome"

definition ret :: "'a \<Rightarrow> ('a, 'c) prog" where
  "ret a h = Ok a h"

definition throw :: "error \<Rightarrow> ('a, 'c) prog" where
  "throw e h = Throw e h"

definition bind :: "('a, 'c) prog \<Rightarrow> ('a \<Rightarrow> ('b, 'c) prog) \<Rightarrow> ('b, 'c) prog" where
  "bind m f h =
     (case m h of Ok a h' \<Rightarrow> f a h' | Throw e h' \<Rightarrow> Throw e h' | OutOfFuel h' \<Rightarrow> OutOfFuel h')"

definition new_polygon_array :: "nat list \<Rightarrow> (nat, 'c) prog" where
  "new_polygon_array xs h =
     Ok (next_ref h)
        (h\<lparr>polygon_arrays := (polygon_arrays h)(next_ref h := xs), next_ref := Suc (next_ref h)\<rparr>)"

definition new_vertex_array :: "Vector list \<Rightarrow> (nat, 'c) prog" where
  "new_vertex_array vs h =
     Ok (next_ref h)
        (h\<lparr>vertex_arrays := (vertex_arrays h)(next_ref h := vs), next_ref := Suc (next_ref h)\<rparr>)"

definition new_polygon_obj :: "'c PolygonObj \<Rightarrow> (nat, 'c) prog" where
  "new_polygon_obj obj h =
     Ok (next_ref h)
        (h\<lparr>polygon_objs := (polygon_objs h)(next_ref h := obj), next_ref := Suc (next_ref h)\<rparr>)"

definition get_polygon_array :: "nat \<Rightarrow> (nat list, 'c) prog" where
  "get_polygon_array a h = Ok (polygon_arrays h a) h"

definition get_vertex_array :: "nat \<Rightarrow> (Vector list, 'c) prog" where
  "get_vertex_array a h = Ok (vertex_arrays h a) h"

definition get_polygon_obj :: "nat \<Rightarrow> ('c PolygonObj, 'c) prog" where
  "get_polygon_obj p h = Ok (polygon_objs h p) h"

definition push_r :: "nat \<Rightarrow> nat \<Rightarrow> (unit, 'c) prog" where
  "push_r a p h = Ok () (h\<lparr>polygon_arrays := (polygon_arrays h)(a := polygon_arrays h a @ [p])\<rparr>)"

definition set_vertex_array :: "nat \<Rightarrow> Vector list \<Rightarrow> (unit, 'c) prog" where
  "set_vertex_array a vs h = Ok () (h\<lparr>vertex_arrays := (vertex_arrays h)(a := vs)\<rparr>)"

definition set_plane :: "nat \<Rightarrow> Plane \<Rightarrow> (unit, 'c) prog" where
  "set_plane p pl h =
     Ok () (h\<lparr>polygon_objs := (polygon_objs h)(p := (polygon_objs h p)\<lparr>o_plane := pl\<rparr>)\<rparr>)"

text \<open>\<open>new Polygon(vertices, color)\<close>, \<open>vertices\<close> an array.\<close>

definition Polygon_new_r :: "nat \<Rightarrow> 'c \<Rightarrow> (nat, 'c) prog" where
  "Polygon_new_r va col =
     bind (get_vertex_array va) (\<lambda>vs.
       if length vs < 3 then throw TypeError
       else new_polygon_obj
              \<lparr>o_vertices = va, o_color = col,
               o_plane = Plane_ofTriangle (vs ! 0) (vs ! 1) (vs ! 2)\<rparr>)"

definition Polygon_clone_r :: "nat \<Rightarrow> (nat, 'c) prog" where
  "Polygon_clone_r this =
     bind (get_polygon_obj this) (\<lambda>obj.
     bind (get_vertex_array (o_vertices obj)) (\<lambda>vs.
     bind (new_vertex_array (map Vector_clone vs)) (\<lambda>va.
       Polygon_new_r va (o_color obj))))"

definition Polygon_flip_r :: "nat \<Rightarrow> (nat, 'c) prog" where
  "Polygon_flip_r this =
     bind (Polygon_clone_r this) (\<lambda>copy.
     bind (get_polygon_obj copy) (\<lambda>obj.
     bind (get_vertex_array (o_vertices obj)) (\<lambda>vs.
     bind (set_vertex_array (o_vertices obj) (rev vs)) (\<lambda>_.
     bind (set_plane copy (Plane_flip (o_plane obj))) (\<lambda>_.
       ret copy)))))"

definition emit_r :: "nat \<Rightarrow> nat \<Rightarrow> 'c \<Rightarrow> (unit, 'c) prog" where
  "emit_r arr va col =
     bind (get_vertex_array va) (\<lambda>vs.
       if length vs \<ge> 3 then bind (Polygon_new_r va col) (\<lambda>q. push_r arr q)
       else ret ())"

definition bisect_r :: "Plane \<Rightarrow> nat \<Rightarrow> nat \<Rightarrow> nat \<Rightarrow> nat \<Rightarrow> nat \<Rightarrow> (unit, 'c) prog" where
  "bisect_r this polygon frontArr samePlaneArr behindArr reversePlaneArr =
     bind (get_polygon_obj polygon) (\<lambda>obj.
     bind (get_vertex_array (o_vertices obj)) (\<lambda>vs.
       let loc = map (classify this) vs
       in if isCoplanar loc then
            (if Vector_dot (normal this) (normal (o_plane obj)) > 0
             then push_r samePlaneArr polygon
             else push_r reversePlaneArr polygon)
          else
            bind (new_vertex_array (fst (bisect_walk this vs loc))) (\<lambda>newFront.
            bind (new_vertex_array (snd (bisect_walk this vs loc))) (\<lambda>newBack.
            bind (emit_r frontArr newFront (o_color obj)) (\<lambda>_.
              emit_r behindArr newBack (o_color obj))))))"

text \<open>Running a program for each element of a list, in order.\<close>

fun for_each :: "('a \<Rightarrow> (unit, 'c) prog) \<Rightarrow> 'a list \<Rightarrow> (unit, 'c) prog" where
  "for_each f [] = ret ()"
| "for_each f (x # xs) = bind (f x) (\<lambda>_. for_each f xs)"

fun map_r :: "('a \<Rightarrow> ('b, 'c) prog) \<Rightarrow> 'a list \<Rightarrow> ('b list, 'c) prog" where
  "map_r f [] = ret []"
| "map_r f (x # xs) = bind (f x) (\<lambda>y. bind (map_r f xs) (\<lambda>ys. ret (y # ys)))"

text \<open>
  \<open>trim\<close> allocates \<open>inside\<close> and \<open>out\<close> itself, so its loop cannot push onto \<open>polys\<close>
  and reads it as it is when the loop starts; \<open>forEach\<close> in \<open>Partition\<close> visits the indexes
  below the initial length, whose entries pushes do not change. Both loops therefore run
  over the contents read before the loop.
\<close>

datatype BSPNode_r = BSPNode_r
  (hyperPlane_r: "Plane option")
  (polygons_r: nat)
  (front_r: "BSPNode_r option")
  (behind_r: "BSPNode_r option")

definition new_BSPNode_r :: "(BSPNode_r, 'c) prog" where
  "new_BSPNode_r = bind (new_polygon_array []) (\<lambda>a. ret (BSPNode_r None a None None))"

fun trim_r :: "BSPNode_r \<Rightarrow> nat \<Rightarrow> (nat, 'c) prog" where
  "trim_r (BSPNode_r hp ps f b) polys =
     (case hp of
        None \<Rightarrow> bind (get_polygon_array polys) (\<lambda>xs. new_polygon_array xs)
      | Some pl \<Rightarrow>
          bind (new_polygon_array []) (\<lambda>inside.
          bind (new_polygon_array []) (\<lambda>out.
          bind (get_polygon_array polys) (\<lambda>xs.
          bind (for_each (\<lambda>p. bisect_r pl p out out inside inside) xs) (\<lambda>_.
          bind (case f of Some fr \<Rightarrow> trim_r fr out | None \<Rightarrow> ret out) (\<lambda>out'.
          bind (case b of Some bh \<Rightarrow> trim_r bh inside | None \<Rightarrow> new_polygon_array [])
            (\<lambda>inside'.
          bind (get_polygon_array out') (\<lambda>os.
          bind (get_polygon_array inside') (\<lambda>is.
            new_polygon_array (os @ is))))))))))"


fun treeTrimSelf_r :: "BSPNode_r \<Rightarrow> BSPNode_r \<Rightarrow> (BSPNode_r, 'c) prog" where
  "treeTrimSelf_r (BSPNode_r hp ps f b) tree =
     bind (trim_r tree ps) (\<lambda>ps'.
     bind (case f of Some fr \<Rightarrow> bind (treeTrimSelf_r fr tree) (\<lambda>n. ret (Some n))
           | None \<Rightarrow> ret None) (\<lambda>f'.
     bind (case b of Some bh \<Rightarrow> bind (treeTrimSelf_r bh tree) (\<lambda>n. ret (Some n))
           | None \<Rightarrow> ret None) (\<lambda>b'.
       ret (BSPNode_r hp ps' f' b'))))"

fun clone_r :: "BSPNode_r \<Rightarrow> (BSPNode_r, 'c) prog" where
  "clone_r (BSPNode_r hp ps f b) =
     bind new_BSPNode_r (\<lambda>tree.
     bind (case f of Some fr \<Rightarrow> bind (clone_r fr) (\<lambda>n. ret (Some n))
           | None \<Rightarrow> ret None) (\<lambda>f'.
     bind (case b of Some bh \<Rightarrow> bind (clone_r bh) (\<lambda>n. ret (Some n))
           | None \<Rightarrow> ret None) (\<lambda>b'.
     bind (get_polygon_array ps) (\<lambda>xs.
     bind (map_r Polygon_clone_r xs) (\<lambda>ys.
     bind (new_polygon_array ys) (\<lambda>a.
       ret (BSPNode_r (map_option Plane_clone hp) a f' b')))))))"

text \<open>
  \<open>flip\<close> recurses into the children of the clone it has just made. That the clone has the
  shape of the original is a property of \<open>clone\<close>, not part of the definition, so the
  recursion runs on fuel.
\<close>

fun flip_r :: "nat \<Rightarrow> BSPNode_r \<Rightarrow> (BSPNode_r, 'c) prog" where
  "flip_r 0 this = OutOfFuel"
| "flip_r (Suc fuel) this =
     bind (clone_r this) (\<lambda>copy.
       case hyperPlane_r copy of
         None \<Rightarrow> throw TypeError
       | Some hp \<Rightarrow>
           bind (get_polygon_array (polygons_r copy)) (\<lambda>xs.
           bind (map_r Polygon_flip_r xs) (\<lambda>ys.
           bind (new_polygon_array ys) (\<lambda>a.
           bind (case front_r copy of Some fr \<Rightarrow> bind (flip_r fuel fr) (\<lambda>n. ret (Some n))
                 | None \<Rightarrow> ret None) (\<lambda>f'.
           bind (case behind_r copy of Some bh \<Rightarrow> bind (flip_r fuel bh) (\<lambda>n. ret (Some n))
                 | None \<Rightarrow> ret None) (\<lambda>b'.
             ret (BSPNode_r (Some (Plane_flip hp)) a b' f')))))))"

definition concat_r :: "nat \<Rightarrow> nat \<Rightarrow> (nat, 'c) prog" where
  "concat_r a b =
     bind (get_polygon_array a) (\<lambda>xs.
     bind (get_polygon_array b) (\<lambda>ys.
       new_polygon_array (xs @ ys)))"

fun concatPolys_r :: "BSPNode_r \<Rightarrow> (nat, 'c) prog" where
  "concatPolys_r (BSPNode_r hp ps f b) =
     bind (get_polygon_array ps) (\<lambda>xs.
     bind (new_polygon_array xs) (\<lambda>polys.
     bind (case f of Some fr \<Rightarrow> bind (concatPolys_r fr) (\<lambda>sub. concat_r polys sub)
           | None \<Rightarrow> ret polys) (\<lambda>polys.
     bind (case b of Some bh \<Rightarrow> bind (concatPolys_r bh) (\<lambda>sub. concat_r polys sub)
           | None \<Rightarrow> ret polys) (\<lambda>polys.
       ret polys))))"

fun Partition_r ::
  "nat \<Rightarrow> nat option \<Rightarrow> BSPNode_r option \<Rightarrow> (BSPNode_r option \<times> BSPNode_r option, 'c) prog" where
  "Partition_r fuel None tree = ret (None, tree)"
| "Partition_r 0 (Some polygonsArr) tree =
     bind (get_polygon_array polygonsArr) (\<lambda>xs.
       if xs = [] then ret (None, tree) else OutOfFuel)"
| "Partition_r (Suc fuel) (Some polygonsArr) tree =
     bind (get_polygon_array polygonsArr) (\<lambda>xs.
       if xs = [] then ret (None, tree)
       else
         bind (case tree of Some t \<Rightarrow> ret t | None \<Rightarrow> new_BSPNode_r) (\<lambda>root.
         bind (get_polygon_obj (hd xs)) (\<lambda>p0.
         bind (new_polygon_array []) (\<lambda>left.
         bind (new_polygon_array []) (\<lambda>right.
         bind (for_each (\<lambda>poly. bisect_r (Plane_clone (o_plane p0)) poly
                                  left (polygons_r root) right (polygons_r root)) xs) (\<lambda>_.
         bind (get_polygon_array left) (\<lambda>ls.
         bind (if ls \<noteq> [] then
                 bind (case front_r root of None \<Rightarrow> new_BSPNode_r | Some f \<Rightarrow> ret f) (\<lambda>f.
                 bind (Partition_r fuel (Some left) (Some f)) (\<lambda>r. ret (snd r)))
               else ret (front_r root)) (\<lambda>front'.
         bind (get_polygon_array right) (\<lambda>rs.
         bind (if rs \<noteq> [] then
                 bind (case behind_r root of None \<Rightarrow> new_BSPNode_r | Some b \<Rightarrow> ret b) (\<lambda>b.
                 bind (Partition_r fuel (Some right) (Some b)) (\<lambda>r. ret (snd r)))
               else ret (behind_r root)) (\<lambda>behind'.
           ret (Some (BSPNode_r (Some (Plane_clone (o_plane p0))) (polygons_r root)
                        front' behind'),
                map_option (\<lambda>t. BSPNode_r (Some (Plane_clone (o_plane p0))) (polygons_r root)
                        front' behind') tree)))))))))))"

record Geometry_r =
  g_polygons :: nat

definition toGeometry_r :: "BSPNode_r \<Rightarrow> (Geometry_r, 'c) prog" where
  "toGeometry_r this = bind (concatPolys_r this) (\<lambda>polys. ret \<lparr>g_polygons = polys\<rparr>)"

text \<open>A method call on a variable that may hold \<open>undefined\<close>.\<close>

definition deref :: "'a option \<Rightarrow> ('a, 'c) prog" where
  "deref x = (case x of Some t \<Rightarrow> ret t | None \<Rightarrow> throw TypeError)"

definition Union_r :: "nat \<Rightarrow> Geometry_r \<Rightarrow> Geometry_r \<Rightarrow> (Geometry_r, 'c) prog" where
  "Union_r fuel geo1 geo2 =
     bind (Partition_r fuel (Some (g_polygons geo1)) None) (\<lambda>r1.
     bind (Partition_r fuel (Some (g_polygons geo2)) None) (\<lambda>r2.
     bind (deref (fst r1)) (\<lambda>tree1.
     bind (deref (fst r2)) (\<lambda>tree2.
     bind (treeTrimSelf_r tree1 tree2) (\<lambda>tree1.
     bind (treeTrimSelf_r tree2 tree1) (\<lambda>tree2.
     bind (flip_r fuel tree2) (\<lambda>tree2.
     bind (treeTrimSelf_r tree2 tree1) (\<lambda>tree2.
     bind (flip_r fuel tree2) (\<lambda>tree2.
     bind (concatPolys_r tree2) (\<lambda>polys.
     bind (Partition_r fuel (Some polys) (Some tree1)) (\<lambda>r.
     bind (deref (snd r)) (\<lambda>tree1.
       toGeometry_r tree1))))))))))))"

definition Intersect_r :: "nat \<Rightarrow> Geometry_r \<Rightarrow> Geometry_r \<Rightarrow> (Geometry_r, 'c) prog" where
  "Intersect_r fuel geo1 geo2 =
     bind (Partition_r fuel (Some (g_polygons geo1)) None) (\<lambda>r1.
     bind (Partition_r fuel (Some (g_polygons geo2)) None) (\<lambda>r2.
     bind (deref (fst r1)) (\<lambda>tree1.
     bind (flip_r fuel tree1) (\<lambda>tree1.
     bind (deref (fst r2)) (\<lambda>tree2.
     bind (treeTrimSelf_r tree2 tree1) (\<lambda>tree2.
     bind (flip_r fuel tree2) (\<lambda>tree2.
     bind (treeTrimSelf_r tree1 tree2) (\<lambda>tree1.
     bind (treeTrimSelf_r tree2 tree1) (\<lambda>tree2.
     bind (concatPolys_r tree2) (\<lambda>polys.
     bind (Partition_r fuel (Some polys) (Some tree1)) (\<lambda>r.
     bind (deref (snd r)) (\<lambda>tree1.
     bind (flip_r fuel tree1) (\<lambda>tree1.
       toGeometry_r tree1)))))))))))))"

definition Subtract_r :: "nat \<Rightarrow> Geometry_r \<Rightarrow> Geometry_r \<Rightarrow> (Geometry_r, 'c) prog" where
  "Subtract_r fuel geo1 geo2 =
     bind (Partition_r fuel (Some (g_polygons geo1)) None) (\<lambda>r1.
     bind (Partition_r fuel (Some (g_polygons geo2)) None) (\<lambda>r2.
     bind (deref (fst r1)) (\<lambda>tree1.
     bind (flip_r fuel tree1) (\<lambda>tree1.
     bind (deref (fst r2)) (\<lambda>tree2.
     bind (treeTrimSelf_r tree1 tree2) (\<lambda>tree1.
     bind (treeTrimSelf_r tree2 tree1) (\<lambda>tree2.
     bind (flip_r fuel tree2) (\<lambda>tree2.
     bind (treeTrimSelf_r tree2 tree1) (\<lambda>tree2.
     bind (flip_r fuel tree2) (\<lambda>tree2.
     bind (concatPolys_r tree2) (\<lambda>polys.
     bind (Partition_r fuel (Some polys) (Some tree1)) (\<lambda>r.
     bind (deref (snd r)) (\<lambda>tree1.
     bind (flip_r fuel tree1) (\<lambda>tree1.
       toGeometry_r tree1))))))))))))))"

section \<open>The specification's reading of bisect, trim and the tree invariant\<close>

text \<open>
  These definitions follow the words of the specification, not the code; the theorems
  below compare them with the functions above.
\<close>

definition crossing :: "location \<Rightarrow> location \<Rightarrow> bool" where
  "crossing a b = ((a = LFront \<and> b = LBack) \<or> (a = LBack \<and> b = LFront))"

text \<open>\<open>lerp(v, w, t)\<close> with \<open>t = -(v\<cdot>normal + p) / ((w - v)\<cdot>normal)\<close>.\<close>

definition spec_intersection :: "Plane \<Rightarrow> Vector \<Rightarrow> Vector \<Rightarrow> Vector" where
  "spec_intersection pl v w =
     Vector_lerp v w (- (Vector_dot v (normal pl) + plane_p pl)
                       / Vector_dot (Vector_minus w v) (normal pl))"

text \<open>What one pair of consecutive vertices \<open>(v[i], v[i+1])\<close> adds to the front list
  and to the back list.\<close>

definition spec_front_part :: "Plane \<Rightarrow> Vector \<times> Vector \<Rightarrow> Vector list" where
  "spec_front_part pl vw =
     (if classify pl (fst vw) = LBack then [] else [fst vw])
     @ (if crossing (classify pl (fst vw)) (classify pl (snd vw))
        then [spec_intersection pl (fst vw) (snd vw)] else [])"

definition spec_back_part :: "Plane \<Rightarrow> Vector \<times> Vector \<Rightarrow> Vector list" where
  "spec_back_part pl vw =
     (if classify pl (fst vw) = LFront then [] else [fst vw])
     @ (if crossing (classify pl (fst vw)) (classify pl (snd vw))
        then [spec_intersection pl (fst vw) (snd vw)] else [])"

text \<open>The consecutive pairs around the loop: each vertex with its cyclic successor.\<close>

definition spec_pairs :: "Vector list \<Rightarrow> (Vector \<times> Vector) list" where
  "spec_pairs vs = zip vs (rotate1 vs)"

definition spec_frontList :: "Plane \<Rightarrow> Vector list \<Rightarrow> Vector list" where
  "spec_frontList pl vs = concat (map (spec_front_part pl) (spec_pairs vs))"

definition spec_backList :: "Plane \<Rightarrow> Vector list \<Rightarrow> Vector list" where
  "spec_backList pl vs = concat (map (spec_back_part pl) (spec_pairs vs))"

text \<open>The polygon made of a vertex list, if the list has at least three vertices.\<close>

definition spec_fragment :: "Vector list \<Rightarrow> 'c \<Rightarrow> 'c Polygon list" where
  "spec_fragment vs col =
     (if 3 \<le> length vs
      then [\<lparr>vertices = vs, color = col, plane = Plane_ofTriangle (vs ! 0) (vs ! 1) (vs ! 2)\<rparr>]
      else [])"

definition spec_emit :: "'r \<Rightarrow> Vector list \<Rightarrow> 'c \<Rightarrow> ('r, 'c) arrays \<Rightarrow> ('r, 'c) arrays" where
  "spec_emit arr vs col s = s(arr := s arr @ spec_fragment vs col)"

definition coplanar_with :: "Plane \<Rightarrow> 'c Polygon \<Rightarrow> bool" where
  "coplanar_with pl q = (\<forall>v\<in>set (vertices q). classify pl v = LPlane)"

definition same_facing :: "Plane \<Rightarrow> 'c Polygon \<Rightarrow> bool" where
  "same_facing pl q = (Vector_dot (normal pl) (normal (plane q)) > 0)"

definition front_fragment :: "Plane \<Rightarrow> 'c Polygon \<Rightarrow> 'c Polygon list" where
  "front_fragment pl q = spec_fragment (spec_frontList pl (vertices q)) (color q)"

definition back_fragment :: "Plane \<Rightarrow> 'c Polygon \<Rightarrow> 'c Polygon list" where
  "back_fragment pl q = spec_fragment (spec_backList pl (vertices q)) (color q)"

text \<open>What one polygon adds to the "outside" and to the "inside" bucket of \<open>trim\<close>.\<close>

definition outside_part :: "Plane \<Rightarrow> 'c Polygon \<Rightarrow> 'c Polygon list" where
  "outside_part pl q =
     (if coplanar_with pl q then (if same_facing pl q then [q] else [])
      else front_fragment pl q)"

definition inside_part :: "Plane \<Rightarrow> 'c Polygon \<Rightarrow> 'c Polygon list" where
  "inside_part pl q =
     (if coplanar_with pl q then (if same_facing pl q then [] else [q])
      else back_fragment pl q)"

text \<open>
  The tree invariant of the data model: a node without a plane is an empty leaf; the
  polygons of a node are coplanar with its plane; the front subtree holds only polygons
  in front of the plane (no vertex behind it, not all on it), the behind subtree only
  polygons behind it.
\<close>

definition in_front_of :: "Plane \<Rightarrow> 'c Polygon \<Rightarrow> bool" where
  "in_front_of pl q =
     ((\<forall>v\<in>set (vertices q). classify pl v \<noteq> LBack) \<and> \<not> coplanar_with pl q)"

definition behind_of :: "Plane \<Rightarrow> 'c Polygon \<Rightarrow> bool" where
  "behind_of pl q =
     ((\<forall>v\<in>set (vertices q). classify pl v \<noteq> LFront) \<and> \<not> coplanar_with pl q)"

fun bsp_invariant :: "'c BSPNode \<Rightarrow> bool" where
  "bsp_invariant (BSPNode hp ps f b) =
     (case hp of
        None \<Rightarrow> ps = [] \<and> f = None \<and> b = None
      | Some h \<Rightarrow>
          (\<forall>q\<in>set ps. coplanar_with h q)
          \<and> (case f of None \<Rightarrow> True
              | Some fr \<Rightarrow> (\<forall>q\<in>set (concatPolys fr). in_front_of h q) \<and> bsp_invariant fr)
          \<and> (case b of None \<Rightarrow> True
              | Some bh \<Rightarrow> (\<forall>q\<in>set (concatPolys bh). behind_of h q) \<and> bsp_invariant bh))"

text \<open>What round \<open>i\<close> of the second loop of \<open>bisect\<close> adds to each list.\<close>

definition iter_front :: "Plane \<Rightarrow> Vector list \<Rightarrow> nat \<Rightarrow> Vector list" where
  "iter_front pl vs i = spec_front_part pl (vs ! i, vs ! ((i + 1) mod length vs))"

definition iter_back :: "Plane \<Rightarrow> Vector list \<Rightarrow> nat \<Rightarrow> Vector list" where
  "iter_back pl vs i = spec_back_part pl (vs ! i, vs ! ((i + 1) mod length vs))"




text \<open>The recursive call of \<open>Partition\<close> on a child, made only for a non-empty list.\<close>

definition descend ::
  "nat \<Rightarrow> 'c Polygon list \<Rightarrow> 'c BSPNode option \<Rightarrow> 'c BSPNode option option" where
  "descend fuel ps child =
     (if ps \<noteq> []
      then map_option snd
             (Partition fuel (Some ps)
                (Some (case child of None \<Rightarrow> new_BSPNode | Some f \<Rightarrow> f)))
      else Some child)"


text \<open>The total number of vertices of a polygon list.\<close>

definition vertex_total :: "'c Polygon list \<Rightarrow> nat" where
  "vertex_total ps = sum_list (map (\<lambda>q. length (vertices q)) ps)"




text \<open>
  Counting around the loop of classifications: the pairs of cyclic neighbours, the numbers
  of front, back and plane entries, the number of front/back crossings, and, for a list
  read from left to right, the plane entries before the last one plus the crossings.
\<close>

definition cyc :: "'a list \<Rightarrow> ('a \<times> 'a) list" where
  "cyc xs = zip xs (rotate1 xs)"

definition nF :: "location list \<Rightarrow> nat" where
  "nF ls = length (filter (\<lambda>a. a = LFront) ls)"

definition nB :: "location list \<Rightarrow> nat" where
  "nB ls = length (filter (\<lambda>a. a = LBack) ls)"

definition nP :: "location list \<Rightarrow> nat" where
  "nP ls = length (filter (\<lambda>a. a = LPlane) ls)"

definition nX :: "location list \<Rightarrow> nat" where
  "nX ls = length (filter (\<lambda>ab. crossing (fst ab) (snd ab)) (cyc ls))"

fun trans :: "location list \<Rightarrow> nat" where
  "trans (a # b # xs) =
     (if a = LPlane then 1 else 0) + (if crossing a b then 1 else 0) + trans (b # xs)"
| "trans xs = 0"

text \<open>
  The frame property: \<open>keeps n h h'\<close> says that every object and array with a reference
  below \<open>n\<close> is in \<open>h'\<close> what it was in \<open>h\<close>; \<open>safe n m Q\<close> that the program \<open>m\<close>, started
  in a store whose references below \<open>n\<close> are all taken, keeps them however it ends, and
  that a value it returns satisfies \<open>Q\<close>; \<open>final_store\<close> is the store a run ends with. A tree is fresh when the arrays of all its nodes were allocated at or
  after \<open>n\<close>. A geometry is allocated in a store when its array, its polygons and their
  vertex arrays are; \<open>polygons_of\<close> reads its polygons as values.
\<close>

definition keeps :: "nat \<Rightarrow> 'c heap \<Rightarrow> 'c heap \<Rightarrow> bool" where
  "keeps n h h' =
     (next_ref h \<le> next_ref h'
      \<and> (\<forall>a<n. polygon_arrays h' a = polygon_arrays h a
               \<and> vertex_arrays h' a = vertex_arrays h a
               \<and> polygon_objs h' a = polygon_objs h a))"

definition safe :: "nat \<Rightarrow> ('a, 'c) prog \<Rightarrow> ('a \<Rightarrow> bool) \<Rightarrow> bool" where
  "safe n m Q =
     (\<forall>h. n \<le> next_ref h \<longrightarrow>
        (case m h of
           Ok a h' \<Rightarrow> keeps n h h' \<and> Q a
         | Throw e h' \<Rightarrow> keeps n h h'
         | OutOfFuel h' \<Rightarrow> keeps n h h'))"

definition final_store :: "('a, 'c) outcome \<Rightarrow> 'c heap" where
  "final_store r = (case r of Ok a h' \<Rightarrow> h' | Throw e h' \<Rightarrow> h' | OutOfFuel h' \<Rightarrow> h')"

fun fresh_tree :: "nat \<Rightarrow> BSPNode_r \<Rightarrow> bool" where
  "fresh_tree n (BSPNode_r hp ps f b) =
     (n \<le> ps
      \<and> (case f of None \<Rightarrow> True | Some fr \<Rightarrow> fresh_tree n fr)
      \<and> (case b of None \<Rightarrow> True | Some bh \<Rightarrow> fresh_tree n bh))"

definition fresh_opt :: "nat \<Rightarrow> BSPNode_r option \<Rightarrow> bool" where
  "fresh_opt n t = (case t of None \<Rightarrow> True | Some x \<Rightarrow> fresh_tree n x)"

definition allocated :: "'c heap \<Rightarrow> Geometry_r \<Rightarrow> bool" where
  "allocated h g =
     (g_polygons g < next_ref h
      \<and> (\<forall>p\<in>set (polygon_arrays h (g_polygons g)).
            p < next_ref h \<and> o_vertices (polygon_objs h p) < next_ref h))"

definition polygons_of :: "'c heap \<Rightarrow> Geometry_r \<Rightarrow> 'c Polygon list" where
  "polygons_of h g =
     map (\<lambda>p. \<lparr>vertices = vertex_arrays h (o_vertices (polygon_objs h p)),
               color = o_color (polygon_objs h p),
               plane = o_plane (polygon_objs h p)\<rparr>)
         (polygon_arrays h (g_polygons g))"

text \<open>
  Whether all vertices of the polygon object \<open>p\<close> classify as \<open>plane\<close> against a plane, and
  the plane of the first polygon of a geometry, both read in the store \<open>h\<close>.
\<close>

definition coplanar_r :: "'c heap \<Rightarrow> Plane \<Rightarrow> nat \<Rightarrow> bool" where
  "coplanar_r h pl p =
     (\<forall>v\<in>set (vertex_arrays h (o_vertices (polygon_objs h p))). classify pl v = LPlane)"

definition first_plane :: "'c heap \<Rightarrow> Geometry_r \<Rightarrow> Plane" where
  "first_plane h g = o_plane (polygon_objs h (hd (polygon_arrays h (g_polygons g))))"

text \<open>The polygon references of the geometry a program returned, and of the root of the
  tree \<open>Partition\<close> returned.\<close>

definition returned_polygons :: "(Geometry_r, 'c) outcome \<Rightarrow> nat list option" where
  "returned_polygons r =
     (case r of Ok g h' \<Rightarrow> Some (polygon_arrays h' (g_polygons g)) | _ \<Rightarrow> None)"

definition root_polygons ::
  "(BSPNode_r option \<times> BSPNode_r option, 'c) outcome \<Rightarrow> nat list option" where
  "root_polygons r =
     (case r of
        Ok (Some t, _) h' \<Rightarrow> Some (polygon_arrays h' (polygons_r t))
      | _ \<Rightarrow> None)"

section \<open>Concrete inputs\<close>

text \<open>
  The plane \<open>z = 0\<close> facing up; a triangle in it facing up and one facing down; a square
  in the plane \<open>x = 0\<close> that straddles \<open>z = 0\<close>, with its two halves. All coordinates are
  small integers, on which doubles compute exactly.
\<close>

definition ex_plane :: Plane where
  "ex_plane = Plane (Vector 0 0 1) 0"

definition ex_up :: "nat Polygon" where
  "ex_up = \<lparr>vertices = [Vector 0 0 0, Vector 1 0 0, Vector 0 1 0], color = 1,
            plane = Plane (Vector 0 0 1) 0\<rparr>"

definition ex_down :: "nat Polygon" where
  "ex_down = \<lparr>vertices = [Vector 0 0 0, Vector 0 1 0, Vector 1 0 0], color = 2,
              plane = Plane (Vector 0 0 (- 1)) 0\<rparr>"

definition ex_wall :: "nat Polygon" where
  "ex_wall = \<lparr>vertices = [Vector 0 0 (- 1), Vector 0 1 (- 1), Vector 0 1 1, Vector 0 0 1],
              color = 3, plane = Plane (Vector 1 0 0) 0\<rparr>"

definition ex_wall_front :: "nat Polygon" where
  "ex_wall_front = \<lparr>vertices = [Vector 0 1 0, Vector 0 1 1, Vector 0 0 1, Vector 0 0 0],
                    color = 3, plane = Plane (Vector 1 0 0) 0\<rparr>"

definition ex_wall_back :: "nat Polygon" where
  "ex_wall_back = \<lparr>vertices = [Vector 0 0 (- 1), Vector 0 1 (- 1), Vector 0 1 0, Vector 0 0 0],
                   color = 3, plane = Plane (Vector 1 0 0) 0\<rparr>"

text \<open>
  A triangle at height \<open>z\<close> above the plane \<open>z = 0\<close>, facing up; and a quadrilateral whose
  fourth vertex lies one unit in front of the plane through its first three.
\<close>

definition ex_at :: "real \<Rightarrow> nat Polygon" where
  "ex_at z = \<lparr>vertices = [Vector 0 0 z, Vector 1 0 z, Vector 0 1 z], color = 4,
              plane = Plane (Vector 0 0 1) (- z)\<rparr>"


text \<open>The tree \<open>Partition([ex_up])\<close> builds, that tree after \<open>Partition([ex_wall], tree)\<close>,
  and the tree \<open>Partition([ex_up, ex_wall])\<close> builds.\<close>

definition ex_tree :: "nat BSPNode" where
  "ex_tree = BSPNode (Some ex_plane) [ex_up] None None"

definition ex_tree_extended :: "nat BSPNode" where
  "ex_tree_extended = BSPNode (Some (Plane (Vector 1 0 0) 0)) [ex_up, ex_wall] None None"


text \<open>
  A store with two caller-owned geometries: \<open>ex_geo1\<close> holds the triangle \<open>ex_up\<close>
  (vertex array 0, polygon 1, polygon array 2), \<open>ex_geo2\<close> a larger triangle in the same
  plane, facing the same way (vertex array 3, polygon 4, polygon array 5).
\<close>

definition ex_heap :: "nat heap" where
  "ex_heap =
     \<lparr>polygon_arrays = (\<lambda>_. [])(2 := [1], 5 := [4]),
      vertex_arrays = (\<lambda>_. [])(0 := [Vector 0 0 0, Vector 1 0 0, Vector 0 1 0],
                                3 := [Vector 0 0 0, Vector 2 0 0, Vector 0 2 0]),
      polygon_objs = (\<lambda>_. \<lparr>o_vertices = 0, o_color = 0, o_plane = Plane (Vector 0 0 0) 0\<rparr>)
         (1 := \<lparr>o_vertices = 0, o_color = 1, o_plane = Plane (Vector 0 0 1) 0\<rparr>,
          4 := \<lparr>o_vertices = 3, o_color = 2, o_plane = Plane (Vector 0 0 1) 0\<rparr>),
      next_ref = 6\<rparr>"

definition ex_geo1 :: Geometry_r where
  "ex_geo1 = \<lparr>g_polygons = 2\<rparr>"

definition ex_geo2 :: Geometry_r where
  "ex_geo2 = \<lparr>g_polygons = 5\<rparr>"

section \<open>Basic facts\<close>

lemmas vec_defs = Vector_plus_def Vector_minus_def Vector_times_def Vector_divide_def
  Vector_dot_def Vector_cross_def Vector_magnitude_def Vector_flip_def Vector_unit_def
  Vector_lerp_def Vector_clone_def Plane_ofTriangle_def Plane_flip_def Plane_clone_def

lemmas bisect_defs = bisect_def bisect_walk_def bisect_iter_def classify_def distance_def
  epsilon_def isCoplanar_def emit_def Polygon_new_def push_def

lemmas spec_defs = spec_frontList_def spec_backList_def spec_pairs_def spec_front_part_def
  spec_back_part_def spec_intersection_def crossing_def spec_fragment_def spec_emit_def
  coplanar_with_def same_facing_def front_fragment_def back_fragment_def outside_part_def
  inside_part_def classify_def distance_def epsilon_def

lemmas ex_defs = ex_plane_def ex_up_def ex_down_def ex_wall_def ex_wall_front_def
  ex_wall_back_def

lemma Polygon_new_Inr:
  "3 \<le> length vs \<Longrightarrow>
   Polygon_new vs col =
     Inr \<lparr>vertices = vs, color = col, plane = Plane_ofTriangle (vs ! 0) (vs ! 1) (vs ! 2)\<rparr>"
  by (simp add: Polygon_new_def)

lemma Vector_clone_id [simp]: "Vector_clone v = v"
  by (simp add: Vector_clone_def)

lemma isCoplanar_acc:
  "foldl (\<lambda>acc x. acc \<and> x = LPlane) a loc = (a \<and> list_all (\<lambda>x. x = LPlane) loc)"
  by (induction loc arbitrary: a) auto

lemma isCoplanar_iff: "isCoplanar loc = list_all (\<lambda>x. x = LPlane) loc"
  by (simp add: isCoplanar_def isCoplanar_acc)

lemma isCoplanar_map:
  "isCoplanar (map (classify pl) vs) = (\<forall>v\<in>set vs. classify pl v = LPlane)"
  by (simp add: isCoplanar_iff list_all_iff)

text \<open>The example polygons are what the constructor builds from their vertices.\<close>

lemma ex_polygons_constructed:
  "Polygon_new [Vector 0 0 0, Vector 1 0 0, Vector 0 1 0] (1::nat) = Inr ex_up"
  "Polygon_new [Vector 0 0 0, Vector 0 1 0, Vector 1 0 0] (2::nat) = Inr ex_down"
  "Polygon_new [Vector 0 0 (- 1), Vector 0 1 (- 1), Vector 0 1 1, Vector 0 0 1] (3::nat)
     = Inr ex_wall"
  by (simp_all add: Polygon_new_def ex_defs vec_defs)

lemma ex_at_constructed:
  "Polygon_new [Vector 0 0 z, Vector 1 0 z, Vector 0 1 z] (4::nat) = Inr (ex_at z)"
  by (simp add: Polygon_new_def ex_at_def vec_defs)

section \<open>bisect: the loop by index against the walk over consecutive pairs\<close>

lemma emit_eq: "emit arr vs col s = spec_emit arr vs col s"
  by (simp add: emit_def spec_emit_def spec_fragment_def Polygon_new_Inr push_def)

lemma bisect_iter_eq:
  assumes "i < length vs"
  shows "bisect_iter pl vs (map (classify pl) vs) acc i =
         (fst acc @ iter_front pl vs i, snd acc @ iter_back pl vs i)"
proof -
  have "0 < length vs"
    using assms by (cases vs) simp_all
  then have j: "(i + 1) mod length vs < length vs"
    by simp
  show ?thesis
    using assms j
    by (cases "classify pl (vs ! i)"; cases "classify pl (vs ! ((i + 1) mod length vs))")
       (simp_all add: bisect_iter_def iter_front_def iter_back_def spec_front_part_def
          spec_back_part_def crossing_def spec_intersection_def Let_def)
qed

lemma bisect_walk_upto:
  "k \<le> length vs \<Longrightarrow>
   foldl (bisect_iter pl vs (map (classify pl) vs)) acc [0..<k] =
     (fst acc @ concat (map (iter_front pl vs) [0..<k]),
      snd acc @ concat (map (iter_back pl vs) [0..<k]))"
proof (induction k)
  case 0
  then show ?case by simp
next
  case (Suc k)
  then show ?case by (simp add: bisect_iter_eq)
qed

lemma spec_pairs_nth:
  "i < length vs \<Longrightarrow> spec_pairs vs ! i = (vs ! i, vs ! ((i + 1) mod length vs))"
  by (simp add: spec_pairs_def nth_rotate1)

lemma length_spec_pairs: "length (spec_pairs vs) = length vs"
  by (simp add: spec_pairs_def)

lemma map_iter_front:
  "map (iter_front pl vs) [0..<length vs] = map (spec_front_part pl) (spec_pairs vs)"
proof (rule nth_equalityI)
  show "length (map (iter_front pl vs) [0..<length vs])
        = length (map (spec_front_part pl) (spec_pairs vs))"
    by (simp add: length_spec_pairs)
next
  fix i assume "i < length (map (iter_front pl vs) [0..<length vs])"
  then have i: "i < length vs" by simp
  then show "map (iter_front pl vs) [0..<length vs] ! i
             = map (spec_front_part pl) (spec_pairs vs) ! i"
    using spec_pairs_nth [OF i] by (simp add: length_spec_pairs iter_front_def)
qed

lemma map_iter_back:
  "map (iter_back pl vs) [0..<length vs] = map (spec_back_part pl) (spec_pairs vs)"
proof (rule nth_equalityI)
  show "length (map (iter_back pl vs) [0..<length vs])
        = length (map (spec_back_part pl) (spec_pairs vs))"
    by (simp add: length_spec_pairs)
next
  fix i assume "i < length (map (iter_back pl vs) [0..<length vs])"
  then have i: "i < length vs" by simp
  then show "map (iter_back pl vs) [0..<length vs] ! i
             = map (spec_back_part pl) (spec_pairs vs) ! i"
    using spec_pairs_nth [OF i] by (simp add: length_spec_pairs iter_back_def)
qed

lemma bisect_walk_eq:
  "bisect_walk pl vs (map (classify pl) vs) = (spec_frontList pl vs, spec_backList pl vs)"
  by (simp add: bisect_walk_def bisect_walk_upto spec_frontList_def spec_backList_def
      map_iter_front map_iter_back)

lemma bisect_mixed:
  assumes "\<not> (\<forall>v\<in>set (vertices polygon). classify pl v = LPlane)"
  shows "bisect pl polygon fr sp bh rp s =
     spec_emit bh (spec_backList pl (vertices polygon)) (color polygon)
       (spec_emit fr (spec_frontList pl (vertices polygon)) (color polygon) s)"
proof -
  have "\<not> isCoplanar (map (classify pl) (vertices polygon))"
    using assms by (simp only: isCoplanar_map not_False_eq_True)
  then show ?thesis
    by (simp add: bisect_def bisect_walk_eq emit_eq)
qed

lemma bisect_coplanar:
  assumes "\<forall>v\<in>set (vertices polygon). classify pl v = LPlane"
  shows "bisect pl polygon fr sp bh rp s =
     (if Vector_dot (normal pl) (normal (plane polygon)) > 0
      then push sp polygon s else push rp polygon s)"
proof -
  have "isCoplanar (map (classify pl) (vertices polygon))"
    using assms by (simp only: isCoplanar_map)
  then show ?thesis
    by (simp add: bisect_def)
qed

section \<open>The loops of trim and Partition\<close>

lemma bisect_in_trim:
  "bisect hp q Out Out Inside Inside s =
     s(Out := s Out @ outside_part hp q, Inside := s Inside @ inside_part hp q)"
proof (cases "coplanar_with hp q")
  case True
  then show ?thesis
    using bisect_coplanar [of q hp Out Out Inside Inside s]
    by (auto simp: coplanar_with_def outside_part_def inside_part_def same_facing_def push_def)
next
  case False
  then show ?thesis
    using bisect_mixed [of q hp Out Out Inside Inside s]
    by (auto simp: coplanar_with_def outside_part_def inside_part_def spec_emit_def
        front_fragment_def back_fragment_def)
qed

lemma trim_loop_from:
  "foldl (\<lambda>s poly. bisect hp poly Out Out Inside Inside s) s0 polys =
     s0(Out := s0 Out @ concat (map (outside_part hp) polys),
        Inside := s0 Inside @ concat (map (inside_part hp) polys))"
proof (induction polys arbitrary: s0)
  case Nil
  show ?case by (rule ext) simp
next
  case (Cons q polys)
  let ?F = "\<lambda>s poly. bisect hp poly Out Out Inside Inside s"
  let ?s1 = "?F s0 q"
  have "foldl ?F s0 (q # polys) = foldl ?F ?s1 polys"
    by simp
  also have "\<dots> = ?s1(Out := ?s1 Out @ concat (map (outside_part hp) polys),
                        Inside := ?s1 Inside @ concat (map (inside_part hp) polys))"
    by (rule Cons.IH)
  also have "\<dots> = s0(Out := s0 Out @ concat (map (outside_part hp) (q # polys)),
                        Inside := s0 Inside @ concat (map (inside_part hp) (q # polys)))"
    by (rule ext) (simp add: bisect_in_trim)
  finally show ?case .
qed

lemma trim_loop_eq:
  "trim_loop hp polys Out = concat (map (outside_part hp) polys)"
  "trim_loop hp polys Inside = concat (map (inside_part hp) polys)"
  by (simp_all add: trim_loop_def trim_loop_from)

lemma bisect_color:
  "\<exists>new. bisect pl polygon fr sp bh rp s a = s a @ new
         \<and> (\<forall>q\<in>set new. color q = color polygon)"
proof (cases "\<forall>v\<in>set (vertices polygon). classify pl v = LPlane")
  case True
  then show ?thesis
    by (simp add: bisect_coplanar push_def)
next
  case False
  then show ?thesis
    by (simp add: bisect_mixed spec_emit_def spec_fragment_def)
qed

lemma Polygon_clone_color: "Polygon_clone polygon = Inr q \<Longrightarrow> color q = color polygon"
  by (auto simp: Polygon_clone_def Polygon_new_def split: if_splits)

lemma Polygon_flip_color: "Polygon_flip polygon = Inr q \<Longrightarrow> color q = color polygon"
  by (auto simp: Polygon_flip_def dest: Polygon_clone_color split: sum.splits)

section \<open>Partition on the concrete inputs\<close>

lemma partition_loop_ex_up:
  "partition_loop ex_plane [] [ex_up] = (\<lambda>r. case r of RootPolygons \<Rightarrow> [ex_up] | _ \<Rightarrow> [])"
  by (rule ext)
     (simp add: partition_loop_def bisect_defs vec_defs ex_defs split: partition_array.splits)

lemma Partition_ex_up:
  "Partition (Suc 0) (Some [ex_up]) None = Some (Some ex_tree, None)"
proof -
  have "Plane_clone (plane ex_up) = ex_plane"
    by (simp add: ex_defs Plane_clone_def)
  then show ?thesis
    using partition_loop_ex_up by (simp add: new_BSPNode_def ex_tree_def Let_def)
qed

lemma partition_loop_extend:
  "partition_loop (Plane (Vector 1 0 0) 0) [ex_up] [ex_wall] =
     (\<lambda>r. case r of RootPolygons \<Rightarrow> [ex_up, ex_wall] | _ \<Rightarrow> [])"
  by (rule ext)
     (simp add: partition_loop_def bisect_defs vec_defs ex_defs split: partition_array.splits)

lemma Partition_extend:
  "Partition (Suc 0) (Some [ex_wall]) (Some ex_tree)
     = Some (Some ex_tree_extended, Some ex_tree_extended)"
proof -
  have "Plane_clone (plane ex_wall) = Plane (Vector 1 0 0) 0"
    by (simp add: ex_defs Plane_clone_def)
  then show ?thesis
    using partition_loop_extend
    by (simp add: new_BSPNode_def ex_tree_def ex_tree_extended_def Let_def)
qed




section \<open>Partition: the loop, and counting the fragments\<close>




lemma trans_append: "trans (as @ b # bs) = trans (as @ [b]) + trans (b # bs)"
  by (induction as rule: trans.induct) simp_all

lemma trans_ge1:
  "x \<noteq> LPlane \<Longrightarrow> last (x # xs) \<noteq> LPlane \<Longrightarrow> last (x # xs) \<noteq> x \<Longrightarrow> 1 \<le> trans (x # xs)"
proof (induction xs arbitrary: x)
  case Nil
  then show ?case by simp
next
  case (Cons y ys)
  show ?case
  proof (cases "y = LPlane")
    case True
    with Cons.prems obtain z zs where "ys = z # zs"
      by (cases ys) auto
    with True show ?thesis by simp
  next
    case False
    show ?thesis
    proof (cases "y = x")
      case True
      with Cons.IH [of y] Cons.prems False show ?thesis by simp
    next
      case ne: False
      with False Cons.prems(1) have "crossing x y"
        by (cases x; cases y) (simp_all add: crossing_def)
      then show ?thesis by simp
    qed
  qed
qed

lemma trans_zip:
  "length (filter (\<lambda>a. a = LPlane) (x # rest))
   + length (filter (\<lambda>ab. crossing (fst ab) (snd ab)) (zip (x # rest) (rest @ [z])))
   = trans (x # rest @ [z])"
  by (induction rest arbitrary: x) simp_all

lemma cyc_trans: "nP (a # rest) + nX (a # rest) = trans (a # rest @ [a])"
  using trans_zip [of a rest a] by (simp add: nP_def nX_def cyc_def)

lemma cyc_rotate1: "cyc (rotate1 xs) = rotate1 (cyc xs)"
proof (cases xs)
  case Nil
  then show ?thesis by (simp add: cyc_def)
next
  case (Cons x xs')
  show ?thesis
  proof (rule nth_equalityI)
    show "length (cyc (rotate1 xs)) = length (rotate1 (cyc xs))"
      by (simp add: cyc_def)
  next
    fix i assume "i < length (cyc (rotate1 xs))"
    then have i: "i < length xs" by (simp add: cyc_def)
    then have j: "Suc i mod length xs < length xs"
      using Cons by simp
    show "cyc (rotate1 xs) ! i = rotate1 (cyc xs) ! i"
      using i j by (simp add: cyc_def nth_rotate1)
  qed
qed

lemma length_filter_rotate1: "length (filter P (rotate1 xs)) = length (filter P xs)"
  by (cases xs) simp_all

lemma nPX_rotate1: "nP (rotate1 ls) + nX (rotate1 ls) = nP ls + nX ls"
  by (simp add: nP_def nX_def cyc_rotate1 length_filter_rotate1)

lemma nPX_rotate: "nP (rotate k ls) + nX (rotate k ls) = nP ls + nX ls"
  by (induction k) (simp_all add: nPX_rotate1)

lemma cyclic_two:
  assumes "LFront \<in> set ls" "LBack \<in> set ls"
  shows "2 \<le> nP ls + nX ls"
proof -
  from assms(1) obtain as bs where ls: "ls = as @ LFront # bs"
    by (auto simp: in_set_conv_decomp)
  define rest where "rest = bs @ as"
  have rot: "rotate (length as) ls = LFront # rest"
    by (simp add: ls rest_def rotate_append)
  have "LBack \<in> set rest"
    using assms(2) by (auto simp: ls rest_def)
  then obtain r1 r2 where rest: "rest = r1 @ LBack # r2"
    by (auto simp: in_set_conv_decomp)
  have "trans (LFront # rest @ [LFront])
        = trans ((LFront # r1) @ [LBack]) + trans (LBack # r2 @ [LFront])"
    using trans_append [of "LFront # r1" LBack "r2 @ [LFront]"] by (simp add: rest)
  moreover have "1 \<le> trans (LFront # (r1 @ [LBack]))"
    by (rule trans_ge1) simp_all
  moreover have "1 \<le> trans (LBack # (r2 @ [LFront]))"
    by (rule trans_ge1) simp_all
  ultimately have "2 \<le> trans (LFront # rest @ [LFront])"
    by simp
  then have "2 \<le> nP (rotate (length as) ls) + nX (rotate (length as) ls)"
    by (simp add: rot cyc_trans)
  then show ?thesis
    by (simp add: nPX_rotate)
qed

lemma sum_list_indicator:
  "sum_list (map (\<lambda>x. if P x then 1 else (0::nat)) xs) = length (filter P xs)"
  by (induction xs) simp_all

lemma length_locations: "length ls = nF ls + nB ls + nP ls"
proof (induction ls)
  case Nil
  show ?case by (simp add: nF_def nB_def nP_def)
next
  case (Cons a ls)
  then show ?case by (cases a) (simp_all add: nF_def nB_def nP_def)
qed

lemma nX_map:
  "length (filter (\<lambda>vw. crossing (classify pl (fst vw)) (classify pl (snd vw))) (spec_pairs vs))
   = nX (map (classify pl) vs)"
proof -
  have "cyc (map (classify pl) vs)
        = map (\<lambda>vw. (classify pl (fst vw), classify pl (snd vw))) (spec_pairs vs)"
    by (simp add: cyc_def spec_pairs_def rotate1_map zip_map_map case_prod_unfold)
  then show ?thesis
    by (simp add: nX_def filter_map comp_def)
qed

lemma map_fst_spec_pairs: "map fst (spec_pairs vs) = vs"
  by (simp add: spec_pairs_def)

lemma length_spec_frontList:
  "length (spec_frontList pl vs)
   = nF (map (classify pl) vs) + nP (map (classify pl) vs) + nX (map (classify pl) vs)"
proof -
  let ?g = "\<lambda>v. if classify pl v \<noteq> LBack then 1 else (0::nat)"
  let ?h = "\<lambda>vw. if crossing (classify pl (fst vw)) (classify pl (snd vw)) then 1 else (0::nat)"
  have "(\<lambda>vw. length (spec_front_part pl vw)) = (\<lambda>vw. ?g (fst vw) + ?h vw)"
    by (rule ext) (simp add: spec_front_part_def)
  then have "length (spec_frontList pl vs)
        = sum_list (map (\<lambda>vw. ?g (fst vw) + ?h vw) (spec_pairs vs))"
    by (simp add: spec_frontList_def length_concat comp_def)
  also have "\<dots> = sum_list (map ?g (map fst (spec_pairs vs))) + sum_list (map ?h (spec_pairs vs))"
    by (simp add: sum_list_addf comp_def)
  also have "\<dots> = length (filter (\<lambda>v. classify pl v \<noteq> LBack) vs) + nX (map (classify pl) vs)"
    by (simp only: map_fst_spec_pairs sum_list_indicator nX_map)
  also have "length (filter (\<lambda>v. classify pl v \<noteq> LBack) vs)
             = nF (map (classify pl) vs) + nP (map (classify pl) vs)"
  proof (induction vs)
    case Nil
    show ?case by (simp add: nF_def nP_def)
  next
    case (Cons v vs)
    then show ?case by (cases "classify pl v") (simp_all add: nF_def nP_def)
  qed
  finally show ?thesis .
qed

lemma length_spec_backList:
  "length (spec_backList pl vs)
   = nB (map (classify pl) vs) + nP (map (classify pl) vs) + nX (map (classify pl) vs)"
proof -
  let ?g = "\<lambda>v. if classify pl v \<noteq> LFront then 1 else (0::nat)"
  let ?h = "\<lambda>vw. if crossing (classify pl (fst vw)) (classify pl (snd vw)) then 1 else (0::nat)"
  have "(\<lambda>vw. length (spec_back_part pl vw)) = (\<lambda>vw. ?g (fst vw) + ?h vw)"
    by (rule ext) (simp add: spec_back_part_def)
  then have "length (spec_backList pl vs)
        = sum_list (map (\<lambda>vw. ?g (fst vw) + ?h vw) (spec_pairs vs))"
    by (simp add: spec_backList_def length_concat comp_def)
  also have "\<dots> = sum_list (map ?g (map fst (spec_pairs vs))) + sum_list (map ?h (spec_pairs vs))"
    by (simp add: sum_list_addf comp_def)
  also have "\<dots> = length (filter (\<lambda>v. classify pl v \<noteq> LFront) vs) + nX (map (classify pl) vs)"
    by (simp only: map_fst_spec_pairs sum_list_indicator nX_map)
  also have "length (filter (\<lambda>v. classify pl v \<noteq> LFront) vs)
             = nB (map (classify pl) vs) + nP (map (classify pl) vs)"
  proof (induction vs)
    case Nil
    show ?case by (simp add: nB_def nP_def)
  next
    case (Cons v vs)
    then show ?case by (cases "classify pl v") (simp_all add: nB_def nP_def)
  qed
  finally show ?thesis .
qed

lemma nF_pos: "0 < nF ls \<longleftrightarrow> LFront \<in> set ls"
  by (auto simp: nF_def filter_empty_conv)

lemma nB_pos: "0 < nB ls \<longleftrightarrow> LBack \<in> set ls"
  by (auto simp: nB_def filter_empty_conv)

text \<open>A polygon of at least three vertices that is not coplanar with the plane leaves at
  least one fragment, and the fragments have at least as many vertices as it has.\<close>

lemma fragments_cover:
  assumes "3 \<le> length (vertices q)" 
  shows "1 \<le> length (front_fragment pl q @ back_fragment pl q)
         \<and> length (vertices q) \<le> vertex_total (front_fragment pl q @ back_fragment pl q)"
proof -
  let ?ls = "map (classify pl) (vertices q)"
  have len: "length (vertices q) = nF ?ls + nB ?ls + nP ?ls"
    using length_locations [of ?ls] by simp
  have lf: "length (spec_frontList pl (vertices q)) = nF ?ls + nP ?ls + nX ?ls"
    by (rule length_spec_frontList)
  have lb: "length (spec_backList pl (vertices q)) = nB ?ls + nP ?ls + nX ?ls"
    by (rule length_spec_backList)
  consider (noB) "nB ?ls = 0" | (noF) "nF ?ls = 0" | (both) "0 < nF ?ls" "0 < nB ?ls"
    by linarith
  then show ?thesis
  proof cases
    case noB
    with len lf assms have "3 \<le> length (spec_frontList pl (vertices q))"
      "length (vertices q) \<le> length (spec_frontList pl (vertices q))" by simp_all
    then show ?thesis
      by (simp add: front_fragment_def back_fragment_def spec_fragment_def vertex_total_def)
  next
    case noF
    with len lb assms have "3 \<le> length (spec_backList pl (vertices q))"
      "length (vertices q) \<le> length (spec_backList pl (vertices q))" by simp_all
    then show ?thesis
      by (simp add: front_fragment_def back_fragment_def spec_fragment_def vertex_total_def)
  next
    case both
    then have "2 \<le> nP ?ls + nX ?ls"
      using cyclic_two [of ?ls] by (simp only: nF_pos nB_pos)
    with both lf lb len have "3 \<le> length (spec_frontList pl (vertices q))"
      "3 \<le> length (spec_backList pl (vertices q))"
      "length (vertices q) \<le> length (spec_frontList pl (vertices q))
          + length (spec_backList pl (vertices q))" by simp_all
    then show ?thesis
      by (simp add: front_fragment_def back_fragment_def spec_fragment_def vertex_total_def)
  qed
qed

section \<open>bisect: thresholds, and what a polygon leaves behind\<close>


lemma classify_cases:
  "(classify pl v = LFront \<longleftrightarrow> distance pl v > 1 / 100000)"
  "(classify pl v = LBack \<longleftrightarrow> distance pl v < - (1 / 100000))"
  "(classify pl v = LPlane \<longleftrightarrow> \<not> distance pl v > 1 / 100000 \<and> \<not> distance pl v < - (1 / 100000))"
  by (auto simp: classify_def epsilon_def Let_def)

lemma length_frontList_filter:
  "length (spec_frontList pl vs)
   = length (filter (\<lambda>v. classify pl v \<noteq> LBack) vs)
     + length (filter (\<lambda>vw. crossing (classify pl (fst vw)) (classify pl (snd vw)))
         (spec_pairs vs))"
proof -
  let ?g = "\<lambda>v. if classify pl v \<noteq> LBack then 1 else (0::nat)"
  let ?h = "\<lambda>vw. if crossing (classify pl (fst vw)) (classify pl (snd vw)) then 1 else (0::nat)"
  have "(\<lambda>vw. length (spec_front_part pl vw)) = (\<lambda>vw. ?g (fst vw) + ?h vw)"
    by (rule ext) (simp add: spec_front_part_def)
  then have "length (spec_frontList pl vs)
        = sum_list (map (\<lambda>vw. ?g (fst vw) + ?h vw) (spec_pairs vs))"
    by (simp add: spec_frontList_def length_concat comp_def)
  also have "\<dots> = sum_list (map ?g (map fst (spec_pairs vs))) + sum_list (map ?h (spec_pairs vs))"
    by (simp add: sum_list_addf comp_def)
  finally show ?thesis
    by (simp only: map_fst_spec_pairs sum_list_indicator)
qed

lemma length_backList_filter:
  "length (spec_backList pl vs)
   = length (filter (\<lambda>v. classify pl v \<noteq> LFront) vs)
     + length (filter (\<lambda>vw. crossing (classify pl (fst vw)) (classify pl (snd vw)))
         (spec_pairs vs))"
proof -
  let ?g = "\<lambda>v. if classify pl v \<noteq> LFront then 1 else (0::nat)"
  let ?h = "\<lambda>vw. if crossing (classify pl (fst vw)) (classify pl (snd vw)) then 1 else (0::nat)"
  have "(\<lambda>vw. length (spec_back_part pl vw)) = (\<lambda>vw. ?g (fst vw) + ?h vw)"
    by (rule ext) (simp add: spec_back_part_def)
  then have "length (spec_backList pl vs)
        = sum_list (map (\<lambda>vw. ?g (fst vw) + ?h vw) (spec_pairs vs))"
    by (simp add: spec_backList_def length_concat comp_def)
  also have "\<dots> = sum_list (map ?g (map fst (spec_pairs vs))) + sum_list (map ?h (spec_pairs vs))"
    by (simp add: sum_list_addf comp_def)
  finally show ?thesis
    by (simp only: map_fst_spec_pairs sum_list_indicator)
qed

lemma fst_in_spec_pairs: "v \<in> set vs \<Longrightarrow> \<exists>w. (v, w) \<in> set (spec_pairs vs)"
proof -
  assume "v \<in> set vs"
  then have "v \<in> set (map fst (spec_pairs vs))"
    by (simp only: map_fst_spec_pairs)
  then show ?thesis by auto
qed

lemma frontList_member:
  assumes "v \<in> set vs" "classify pl v \<noteq> LBack"
  shows "v \<in> set (spec_frontList pl vs)"
proof -
  from fst_in_spec_pairs [OF assms(1)] obtain w where "(v, w) \<in> set (spec_pairs vs)" ..
  moreover have "v \<in> set (spec_front_part pl (v, w))"
    using assms(2) by (simp add: spec_front_part_def)
  ultimately show ?thesis
    by (auto simp: spec_frontList_def)
qed

lemma backList_member:
  assumes "v \<in> set vs" "classify pl v \<noteq> LFront"
  shows "v \<in> set (spec_backList pl vs)"
proof -
  from fst_in_spec_pairs [OF assms(1)] obtain w where "(v, w) \<in> set (spec_pairs vs)" ..
  moreover have "v \<in> set (spec_back_part pl (v, w))"
    using assms(2) by (simp add: spec_back_part_def)
  ultimately show ?thesis
    by (auto simp: spec_backList_def)
qed

lemma split_both:
  assumes "LFront \<in> set (map (classify pl) vs)" "LBack \<in> set (map (classify pl) vs)"
  shows "3 \<le> length (spec_frontList pl vs) \<and> 3 \<le> length (spec_backList pl vs)"
proof -
  let ?ls = "map (classify pl) vs"
  have "2 \<le> nP ?ls + nX ?ls"
    using assms by (rule cyclic_two)
  moreover have "0 < nF ?ls" "0 < nB ?ls"
    using assms by (simp_all only: nF_pos nB_pos)
  ultimately show ?thesis
    using length_spec_frontList [of pl vs] length_spec_backList [of pl vs] by simp
qed

lemma bisect_mixed_other:
  assumes "\<not> (\<forall>v\<in>set (vertices polygon). classify pl v = LPlane)" "a \<noteq> fr" "a \<noteq> bh"
  shows "bisect pl polygon fr sp bh rp s a = s a"
  using assms(2,3) by (simp add: bisect_mixed [OF assms(1)] spec_emit_def)

lemma bisect_pushes_one:
  assumes "3 \<le> length (vertices polygon)"
  shows "\<exists>a\<in>{fr, sp, bh, rp}. \<exists>q new. bisect pl polygon fr sp bh rp s a = s a @ q # new
            \<and> color q = color polygon"
proof (cases "\<forall>v\<in>set (vertices polygon). classify pl v = LPlane")
  case True
  then show ?thesis
    by (simp add: bisect_coplanar push_def)
next
  case False
  from fragments_cover [where q = polygon and pl = pl, OF assms]
  have ne: "front_fragment pl polygon \<noteq> [] \<or> back_fragment pl polygon \<noteq> []"
    by auto
  have eq: "bisect pl polygon fr sp bh rp s =
      (s(fr := s fr @ front_fragment pl polygon))
        (bh := (s(fr := s fr @ front_fragment pl polygon)) bh @ back_fragment pl polygon)"
    by (simp add: bisect_mixed [OF False] spec_emit_def front_fragment_def back_fragment_def)
  have col: "\<forall>q\<in>set (front_fragment pl polygon @ back_fragment pl polygon).
               color q = color polygon"
    by (auto simp: front_fragment_def back_fragment_def spec_fragment_def)
  show ?thesis
  proof (cases "front_fragment pl polygon")
    case Nil
    with ne obtain b bs where b: "back_fragment pl polygon = b # bs"
      by (cases "back_fragment pl polygon") auto
    with col have "color b = color polygon" by simp
    moreover have "bisect pl polygon fr sp bh rp s bh = s bh @ b # bs"
      by (simp add: eq Nil b)
    ultimately show ?thesis by blast
  next
    case (Cons f fs)
    with col have "color f = color polygon" by simp
    moreover have "bisect pl polygon fr sp bh rp s fr
                   = s fr @ f # (fs @ (if bh = fr then back_fragment pl polygon else []))"
      by (simp add: eq Cons)
    ultimately show ?thesis by blast
  qed
qed

lemma bisect_split:
  assumes "\<exists>v\<in>set (vertices polygon). classify pl v = LFront"
    and "\<exists>v\<in>set (vertices polygon). classify pl v = LBack"
  shows "\<exists>f b. color f = color polygon \<and> color b = color polygon
           \<and> vertices f = spec_frontList pl (vertices polygon)
           \<and> vertices b = spec_backList pl (vertices polygon)
           \<and> bisect pl polygon fr sp bh rp s = push bh b (push fr f s)"
proof -
  have "LFront \<in> set (map (classify pl) (vertices polygon))"
    "LBack \<in> set (map (classify pl) (vertices polygon))"
    using assms by force+
  then have len: "3 \<le> length (spec_frontList pl (vertices polygon))"
    "3 \<le> length (spec_backList pl (vertices polygon))"
    using split_both by blast+
  have mixed: "\<not> (\<forall>v\<in>set (vertices polygon). classify pl v = LPlane)"
    using assms(1) by force
  obtain f where f: "spec_fragment (spec_frontList pl (vertices polygon)) (color polygon) = [f]"
    using len(1) by (simp add: spec_fragment_def)
  obtain b where b: "spec_fragment (spec_backList pl (vertices polygon)) (color polygon) = [b]"
    using len(2) by (simp add: spec_fragment_def)
  have "color f = color polygon" "vertices f = spec_frontList pl (vertices polygon)"
    "color b = color polygon" "vertices b = spec_backList pl (vertices polygon)"
    using f b len by (auto simp: spec_fragment_def)
  moreover have "bisect pl polygon fr sp bh rp s = push bh b (push fr f s)"
    by (simp add: bisect_mixed [OF mixed] spec_emit_def f b push_def)
  ultimately show ?thesis
    by blast
qed

section \<open>Partition: counts and colours\<close>








lemma vertex_total_append [simp]:
  "vertex_total (xs @ ys) = vertex_total xs + vertex_total ys"
  by (simp add: vertex_total_def)

lemma vertex_total_Cons [simp]:
  "vertex_total (q # ys) = length (vertices q) + vertex_total ys"
  by (simp add: vertex_total_def)

lemma vertex_total_Nil [simp]: "vertex_total [] = 0"
  by (simp add: vertex_total_def)









section \<open>Partition: the pieces of the round trip\<close>





















section \<open>The frame property of the operations on the store\<close>

lemma keeps_refl: "keeps n h h"
  by (simp add: keeps_def)

lemma keeps_trans: "keeps n h h' \<Longrightarrow> keeps n h' h'' \<Longrightarrow> keeps n h h''"
  by (auto simp: keeps_def)

lemma safe_bind:
  fixes m :: "('a, 'c) prog" and f :: "'a \<Rightarrow> ('b, 'c) prog"
  assumes "safe n m (\<lambda>a. safe n (f a) R)"
  shows "safe n (bind m f) R"
  unfolding safe_def
proof (intro allI impI)
  fix h :: "'c heap" assume h: "n \<le> next_ref h"
  show "case bind m f h of Ok a h' \<Rightarrow> keeps n h h' \<and> R a | Throw e h' \<Rightarrow> keeps n h h'
        | OutOfFuel h' \<Rightarrow> keeps n h h'"
  proof (cases "m h")
    case (Ok a h')
    with assms h have k: "keeps n h h'" and s: "safe n (f a) R"
      by (auto simp: safe_def)
    from k h have "n \<le> next_ref h'" by (simp add: keeps_def)
    with s have "case f a h' of Ok b h'' \<Rightarrow> keeps n h' h'' \<and> R b
        | Throw e h'' \<Rightarrow> keeps n h' h'' | OutOfFuel h'' \<Rightarrow> keeps n h' h''"
      by (simp add: safe_def)
    with k show ?thesis
      by (auto simp: bind_def Ok split: outcome.splits intro: keeps_trans)
  next
    case (Throw e h')
    with assms h show ?thesis by (auto simp: safe_def bind_def)
  next
    case (OutOfFuel h')
    with assms h show ?thesis by (auto simp: safe_def bind_def)
  qed
qed

lemma safe_conseq:
  assumes "safe n m Q" "\<And>a. Q a \<Longrightarrow> R a"
  shows "safe n m R"
  using assms by (auto simp: safe_def split: outcome.splits)

lemma safe_ret: "Q a \<Longrightarrow> safe n (ret a) Q"
  by (simp add: safe_def ret_def keeps_refl)

lemma safe_throw: "safe n (throw e) Q"
  by (simp add: safe_def throw_def keeps_refl)

lemma safe_OutOfFuel: "safe n OutOfFuel Q"
  by (simp add: safe_def keeps_refl)

lemma safe_new_polygon_array: "(\<And>a. n \<le> a \<Longrightarrow> Q a) \<Longrightarrow> safe n (new_polygon_array xs) Q"
  by (simp add: safe_def new_polygon_array_def keeps_def)

lemma safe_new_vertex_array: "(\<And>a. n \<le> a \<Longrightarrow> Q a) \<Longrightarrow> safe n (new_vertex_array xs) Q"
  by (simp add: safe_def new_vertex_array_def keeps_def)

lemma safe_new_polygon_obj: "(\<And>a. n \<le> a \<Longrightarrow> Q a) \<Longrightarrow> safe n (new_polygon_obj obj) Q"
  by (simp add: safe_def new_polygon_obj_def keeps_def)

lemma safe_get_polygon_array: "(\<And>x. Q x) \<Longrightarrow> safe n (get_polygon_array a) Q"
  by (simp add: safe_def get_polygon_array_def keeps_refl)

lemma safe_get_vertex_array: "(\<And>x. Q x) \<Longrightarrow> safe n (get_vertex_array a) Q"
  by (simp add: safe_def get_vertex_array_def keeps_refl)

lemma safe_get_polygon_obj: "(\<And>x. Q x) \<Longrightarrow> safe n (get_polygon_obj a) Q"
  by (simp add: safe_def get_polygon_obj_def keeps_refl)

lemma safe_push: "n \<le> a \<Longrightarrow> Q () \<Longrightarrow> safe n (push_r a p) Q"
  by (simp add: safe_def push_r_def keeps_def)

lemmas safe_intros = safe_bind safe_ret safe_throw safe_OutOfFuel safe_new_polygon_array
  safe_new_vertex_array safe_new_polygon_obj safe_get_polygon_array safe_get_vertex_array
  safe_get_polygon_obj

lemma safe_Polygon_new: "(\<And>a. n \<le> a \<Longrightarrow> Q a) \<Longrightarrow> safe n (Polygon_new_r va col) Q"
  unfolding Polygon_new_r_def by (intro safe_intros) (simp add: safe_intros)

lemma safe_Polygon_clone: "(\<And>a. n \<le> a \<Longrightarrow> Q a) \<Longrightarrow> safe n (Polygon_clone_r p) Q"
  unfolding Polygon_clone_r_def by (intro safe_intros safe_Polygon_new) 

lemma safe_Polygon_flip: "(\<And>a. Q a) \<Longrightarrow> safe n (Polygon_flip_r p) Q"
  by (auto simp: safe_def Polygon_flip_r_def Polygon_clone_r_def Polygon_new_r_def bind_def
      get_polygon_obj_def get_vertex_array_def new_vertex_array_def new_polygon_obj_def
      set_vertex_array_def set_plane_def ret_def throw_def keeps_def)

lemma safe_emit: "n \<le> arr \<Longrightarrow> Q () \<Longrightarrow> safe n (emit_r arr va col) Q"
  unfolding emit_r_def
  by (intro safe_intros safe_Polygon_new) (simp add: safe_intros safe_Polygon_new safe_push)

lemma safe_bisect:
  assumes "n \<le> fr" "n \<le> sp" "n \<le> bh" "n \<le> rp" "Q ()"
  shows "safe n (bisect_r pl p fr sp bh rp) Q"
  unfolding bisect_r_def Let_def using assms
  by (intro safe_intros) (simp add: safe_intros safe_emit safe_push)

lemma safe_for_each:
  assumes "\<And>x. safe n (f x) (\<lambda>_. True)" "Q ()"
  shows "safe n (for_each f xs) Q"
proof (induction xs)
  case Nil
  show ?case using assms(2) by (simp add: safe_ret)
next
  case (Cons x xs)
  show ?case
    unfolding for_each.simps
    by (rule safe_bind, rule safe_conseq [OF assms(1)]) (rule Cons.IH)
qed

lemma safe_map_r:
  assumes "\<And>x. safe n (f x) (\<lambda>_. True)" "\<And>ys. Q ys"
  shows "safe n (map_r f xs) Q"
  using assms(2)
proof (induction xs arbitrary: Q)
  case Nil
  then show ?case by (simp add: safe_ret)
next
  case (Cons x xs)
  show ?case
    unfolding map_r.simps
    by (rule safe_bind, rule safe_conseq [OF assms(1)], rule safe_bind, rule Cons.IH,
        rule safe_ret, rule Cons.prems)
qed

lemma safe_new_BSPNode: "(\<And>t. fresh_tree n t \<Longrightarrow> Q t) \<Longrightarrow> safe n new_BSPNode_r Q"
  unfolding new_BSPNode_r_def by (intro safe_intros) simp

lemma safe_concat: "(\<And>a. n \<le> a \<Longrightarrow> Q a) \<Longrightarrow> safe n (concat_r a b) Q"
  unfolding concat_r_def by (intro safe_intros)

lemma safe_deref: "(\<And>t. x = Some t \<Longrightarrow> Q t) \<Longrightarrow> safe n (deref x) Q"
  by (cases x) (simp_all add: deref_def safe_intros)

lemma safe_trim: "safe n (trim_r node polys :: (nat, 'c) prog) (\<lambda>r. n \<le> r)"
proof (induction node polys rule: trim_r.induct)
  case (1 hp ps f b polys)
  show ?case
  proof (cases hp)
    case None
    then show ?thesis
      by (simp, intro safe_intros)
  next
    case (Some pl)
    have F: "safe n (case f of Some fr \<Rightarrow> trim_r fr out | None \<Rightarrow> (ret out :: (nat, 'c) prog)) Q"
      if "n \<le> out" "\<And>r. n \<le> r \<Longrightarrow> Q r" for out Q
    proof (cases f)
      case None
      with that show ?thesis by (simp add: safe_ret)
    next
      case fr: (Some fr)
      have "safe n (trim_r fr out :: (nat, 'c) prog) (\<lambda>r. n \<le> r)"
        by (rule "1.IH"(1) [OF Some fr])
      then have "safe n (trim_r fr out :: (nat, 'c) prog) Q"
        by (rule safe_conseq) (rule that(2))
      then show ?thesis by (simp add: fr)
    qed
    have B: "safe n (case b of Some bh \<Rightarrow> trim_r bh inside
                     | None \<Rightarrow> (new_polygon_array [] :: (nat, 'c) prog)) Q"
      if "\<And>r. n \<le> r \<Longrightarrow> Q r" for inside Q
    proof (cases b)
      case None
      with that show ?thesis by (simp add: safe_new_polygon_array)
    next
      case bh: (Some bh)
      have "safe n (trim_r bh inside :: (nat, 'c) prog) (\<lambda>r. n \<le> r)"
        by (rule "1.IH"(2) [OF Some bh])
      then have "safe n (trim_r bh inside :: (nat, 'c) prog) Q"
        by (rule safe_conseq) (rule that)
      then show ?thesis by (simp add: bh)
    qed
    show ?thesis
      unfolding trim_r.simps Some option.case
      by (intro safe_intros safe_for_each safe_bisect F B TrueI | assumption)+
  qed
qed

lemma safe_trim': "(\<And>r. n \<le> r \<Longrightarrow> Q r) \<Longrightarrow> safe n (trim_r node polys) Q"
  by (rule safe_conseq [OF safe_trim])

text \<open>A recursive call on a child that may be absent.\<close>

lemma safe_child:
  assumes "\<And>c. child = Some c \<Longrightarrow> safe n (g c) (fresh_tree n)"
    and "\<And>r. fresh_opt n r \<Longrightarrow> Q r"
  shows "safe n (case child of Some c \<Rightarrow> bind (g c) (\<lambda>n. ret (Some n)) | None \<Rightarrow> ret None) Q"
proof (cases child)
  case None
  then show ?thesis
    by (simp add: safe_ret assms(2) fresh_opt_def)
next
  case (Some c)
  have "safe n (g c) (\<lambda>a. safe n (ret (Some a)) Q)"
    by (rule safe_conseq [OF assms(1) [OF Some]]) (simp add: safe_ret assms(2) fresh_opt_def)
  then show ?thesis
    unfolding Some option.case by (rule safe_bind)
qed

lemma safe_treeTrimSelf:
  "safe n (treeTrimSelf_r this tree :: (BSPNode_r, 'c) prog) (fresh_tree n)"
proof (induction this tree rule: treeTrimSelf_r.induct)
  case (1 hp ps f b tree)
  show ?case
    unfolding treeTrimSelf_r.simps
    by (intro safe_bind safe_trim' safe_child "1.IH" safe_ret | assumption)+
       (simp add: fresh_opt_def)
qed

lemma safe_clone: "safe n (clone_r this :: (BSPNode_r, 'c) prog) (fresh_tree n)"
proof (induction this rule: clone_r.induct)
  case (1 hp ps f b)
  show ?case
    unfolding clone_r.simps
    by (intro safe_bind safe_new_BSPNode safe_child "1.IH" safe_get_polygon_array
          safe_map_r safe_Polygon_clone safe_new_polygon_array safe_ret TrueI | assumption)+
       (simp add: fresh_opt_def)
qed

lemma safe_flip: "safe n (flip_r fuel this :: (BSPNode_r, 'c) prog) (fresh_tree n)"
proof (induction fuel arbitrary: this)
  case 0
  show ?case by (simp add: safe_OutOfFuel)
next
  case (Suc fuel)
  have body: "safe n (case hyperPlane_r copy of
         None \<Rightarrow> (throw TypeError :: (BSPNode_r, 'c) prog)
       | Some hp \<Rightarrow>
           bind (get_polygon_array (polygons_r copy)) (\<lambda>xs.
           bind (map_r Polygon_flip_r xs) (\<lambda>ys.
           bind (new_polygon_array ys) (\<lambda>a.
           bind (case front_r copy of Some fr \<Rightarrow> bind (flip_r fuel fr) (\<lambda>n. ret (Some n))
                 | None \<Rightarrow> ret None) (\<lambda>f'.
           bind (case behind_r copy of Some bh \<Rightarrow> bind (flip_r fuel bh) (\<lambda>n. ret (Some n))
                 | None \<Rightarrow> ret None) (\<lambda>b'.
             ret (BSPNode_r (Some (Plane_flip hp)) a b' f'))))))) (fresh_tree n)" for copy
  proof (cases "hyperPlane_r copy")
    case None
    then show ?thesis by (simp add: safe_throw)
  next
    case (Some hp)
    show ?thesis
      unfolding Some option.case
      by (intro safe_bind safe_get_polygon_array safe_map_r safe_Polygon_flip
            safe_new_polygon_array safe_child Suc.IH safe_ret TrueI | assumption)+
         (simp add: fresh_opt_def)
  qed
  show ?case
    unfolding flip_r.simps
    by (rule safe_bind, rule safe_conseq [OF safe_clone], rule body)
qed

lemma safe_concatPolys: "safe n (concatPolys_r this :: (nat, 'c) prog) (\<lambda>r. n \<le> r)"
proof (induction this rule: concatPolys_r.induct)
  case (1 hp ps f b)
  have C: "safe n (case child of Some c \<Rightarrow> bind (concatPolys_r c) (\<lambda>sub. concat_r polys sub)
           | None \<Rightarrow> (ret polys :: (nat, 'c) prog)) Q"
    if "\<And>c. child = Some c \<Longrightarrow> safe n (concatPolys_r c :: (nat, 'c) prog) (\<lambda>r. n \<le> r)"
      "n \<le> polys" "\<And>r. n \<le> r \<Longrightarrow> Q r" for child polys Q
  proof (cases child)
    case None
    with that show ?thesis by (simp add: safe_ret)
  next
    case (Some c)
    have "safe n (concatPolys_r c :: (nat, 'c) prog) (\<lambda>a. safe n (concat_r polys a :: (nat, 'c) prog) Q)"
      by (rule safe_conseq [OF that(1) [OF Some]]) (rule safe_concat, rule that(3))
    then show ?thesis unfolding Some option.case by (rule safe_bind)
  qed
  show ?case
    unfolding concatPolys_r.simps
    by (intro safe_bind safe_get_polygon_array safe_new_polygon_array C "1.IH" safe_ret
        | assumption)+
qed

lemma fresh_tree_fields:
  "fresh_tree n t \<Longrightarrow> n \<le> polygons_r t \<and> fresh_opt n (front_r t) \<and> fresh_opt n (behind_r t)"
  by (cases t) (simp add: fresh_opt_def)

lemma fresh_tree_node:
  "n \<le> ps \<Longrightarrow> fresh_opt n f \<Longrightarrow> fresh_opt n b \<Longrightarrow> fresh_tree n (BSPNode_r hp ps f b)"
  by (simp add: fresh_opt_def)

lemma safe_root:
  assumes "fresh_opt n tree" "\<And>t. fresh_tree n t \<Longrightarrow> Q t"
  shows "safe n (case tree of Some t \<Rightarrow> ret t | None \<Rightarrow> new_BSPNode_r) Q"
  using assms by (cases tree) (simp_all add: fresh_opt_def safe_ret safe_new_BSPNode)

lemma safe_child_node:
  assumes "fresh_opt n child" "\<And>t. fresh_tree n t \<Longrightarrow> Q t"
  shows "safe n (case child of None \<Rightarrow> new_BSPNode_r | Some f \<Rightarrow> ret f) Q"
  using assms by (cases child) (simp_all add: fresh_opt_def safe_ret safe_new_BSPNode)

lemma safe_if:
  "(c \<Longrightarrow> safe n a Q) \<Longrightarrow> (\<not> c \<Longrightarrow> safe n b Q) \<Longrightarrow> safe n (if c then a else b) Q"
  by simp

lemma safe_Partition:
  "fresh_opt n tree \<Longrightarrow>
   safe n (Partition_r fuel polys tree :: (BSPNode_r option \<times> BSPNode_r option, 'c) prog)
     (\<lambda>r. fresh_opt n (fst r) \<and> fresh_opt n (snd r))"
proof (induction fuel arbitrary: polys tree)
  case 0
  show ?case
  proof (cases polys)
    case None
    with "0.prems" show ?thesis by (simp add: safe_ret fresh_opt_def)
  next
    case (Some a)
    show ?thesis
      unfolding Some Partition_r.simps using "0.prems"
      by (intro safe_bind safe_get_polygon_array)
         (simp add: safe_ret safe_OutOfFuel fresh_opt_def)
  qed
next
  case (Suc fuel)
  show ?case
  proof (cases polys)
    case None
    with Suc.prems show ?thesis by (simp add: safe_ret fresh_opt_def)
  next
    case (Some a)
    have descend: "safe n (if ls \<noteq> [] then
                 bind (case child of None \<Rightarrow> new_BSPNode_r | Some f \<Rightarrow> ret f) (\<lambda>f.
                 bind (Partition_r fuel (Some arr) (Some f)) (\<lambda>r. ret (snd r)))
               else (ret child :: (BSPNode_r option, 'c) prog)) Q"
      if "fresh_opt n child" "\<And>r. fresh_opt n r \<Longrightarrow> Q r" for ls child arr Q
    proof (cases "ls = []")
      case True
      with that show ?thesis by (simp add: safe_ret)
    next
      case False
      have "safe n (bind (Partition_r fuel (Some arr) (Some f)) (\<lambda>r. ret (snd r))
              :: (BSPNode_r option, 'c) prog) Q"
        if "fresh_tree n f" for f
        by (rule safe_bind, rule safe_conseq [OF Suc.IH])
           (simp_all add: fresh_opt_def that safe_ret \<open>\<And>r. fresh_opt n r \<Longrightarrow> Q r\<close>)
      then show ?thesis
        using False by (simp add: safe_bind safe_child_node that(1))
    qed
    show ?thesis
      unfolding Some Partition_r.simps
      apply (intro safe_bind safe_get_polygon_array safe_if)
      subgoal
        using Suc.prems by (simp add: safe_ret fresh_opt_def)
      subgoal
        apply (rule safe_root [OF Suc.prems])
        apply (frule fresh_tree_fields)
        apply (intro safe_bind safe_get_polygon_obj safe_new_polygon_array safe_for_each
                  safe_bisect safe_get_polygon_array descend safe_ret TrueI conjI
                | assumption | simp add: fresh_opt_def split: option.splits)+
        done
      done
  qed
qed

lemma safe_toGeometry: "(\<And>g. Q g) \<Longrightarrow> safe n (toGeometry_r t) Q"
  unfolding toGeometry_r_def
  by (rule safe_bind, rule safe_conseq [OF safe_concatPolys]) (simp add: safe_ret)

lemma safe_Partition':
  assumes "fresh_opt n tree" "\<And>r. fresh_opt n (fst r) \<Longrightarrow> fresh_opt n (snd r) \<Longrightarrow> Q r"
  shows "safe n (Partition_r fuel polys tree) Q"
  by (rule safe_conseq [OF safe_Partition [OF assms(1)]]) (simp add: assms(2))

lemma safe_treeTrimSelf':
  "(\<And>t. fresh_tree n t \<Longrightarrow> Q t) \<Longrightarrow> safe n (treeTrimSelf_r this tree) Q"
  by (rule safe_conseq [OF safe_treeTrimSelf])

lemma safe_flip': "(\<And>t. fresh_tree n t \<Longrightarrow> Q t) \<Longrightarrow> safe n (flip_r fuel this) Q"
  by (rule safe_conseq [OF safe_flip])

lemma safe_concatPolys': "(\<And>r. n \<le> r \<Longrightarrow> Q r) \<Longrightarrow> safe n (concatPolys_r this) Q"
  by (rule safe_conseq [OF safe_concatPolys])

lemmas safe_ops = safe_bind safe_Partition' safe_deref safe_treeTrimSelf' safe_flip'
  safe_concatPolys' safe_toGeometry

lemma safe_Union: "safe n (Union_r fuel geo1 geo2) (\<lambda>_. True)"
  unfolding Union_r_def
  by (intro safe_ops | simp add: fresh_opt_def)+

lemma safe_Intersect: "safe n (Intersect_r fuel geo1 geo2) (\<lambda>_. True)"
  unfolding Intersect_r_def
  by (intro safe_ops | simp add: fresh_opt_def)+

lemma safe_Subtract: "safe n (Subtract_r fuel geo1 geo2) (\<lambda>_. True)"
  unfolding Subtract_r_def
  by (intro safe_ops | simp add: fresh_opt_def)+

lemma safe_final:
  assumes "safe n m Q" "n \<le> next_ref h"
  shows "keeps n h (final_store (m h))"
  using assms by (auto simp: safe_def final_store_def split: outcome.splits)

lemma keeps_polygons_of:
  assumes "keeps (next_ref h) h h'" "allocated h g"
  shows "polygon_arrays h' (g_polygons g) = polygon_arrays h (g_polygons g)
         \<and> polygons_of h' g = polygons_of h g"
  using assms by (auto simp: keeps_def allocated_def polygons_of_def)

lemmas heap_defs = bind_def ret_def throw_def new_polygon_array_def new_vertex_array_def
  new_polygon_obj_def get_polygon_array_def get_vertex_array_def get_polygon_obj_def
  push_r_def set_vertex_array_def set_plane_def Polygon_new_r_def Polygon_clone_r_def
  Polygon_flip_r_def emit_r_def bisect_r_def new_BSPNode_r_def concat_r_def toGeometry_r_def
  deref_def

section \<open>The working trees hold the objects of the caller\<close>

lemma bindE:
  assumes "bind m f h = Ok b h''"
  obtains a h' where "m h = Ok a h'" "f a h' = Ok b h''"
  using assms by (auto simp: bind_def split: outcome.splits)

lemma bisect_r_root:
  assumes "bisect_r pl p l r rt r h = Ok u h'" "l \<noteq> r" "rt \<noteq> r"
  shows "polygon_arrays h' r = polygon_arrays h r @ (if coplanar_r h pl p then [p] else [])
       \<and> next_ref h \<le> next_ref h'
       \<and> (\<forall>a<next_ref h. vertex_arrays h' a = vertex_arrays h a
                         \<and> polygon_objs h' a = polygon_objs h a)"
  using assms
  by (auto simp: heap_defs Let_def isCoplanar_map coplanar_r_def split: if_splits)


lemma for_each_root:
  assumes "for_each (\<lambda>p. bisect_r pl p l r rt r) xs h = Ok u (h' :: 'c heap)" "l \<noteq> r" "rt \<noteq> r"
    and "\<forall>p\<in>set xs. p < next_ref h \<and> o_vertices (polygon_objs h p) < next_ref h"
  shows "polygon_arrays h' r = polygon_arrays h r @ filter (coplanar_r h pl) xs
       \<and> next_ref h \<le> next_ref h'
       \<and> (\<forall>a<next_ref h. vertex_arrays h' a = vertex_arrays h a
                         \<and> polygon_objs h' a = polygon_objs h a)"
  using assms(1,4)
proof (induction xs arbitrary: h)
  case Nil
  then show ?case by (simp add: ret_def)
next
  case (Cons x xs)
  from Cons.prems(1) obtain w h1 where
    step: "bisect_r pl x l r rt r h = Ok w (h1 :: 'c heap)"
    and rest: "for_each (\<lambda>p. bisect_r pl p l r rt r) xs h1 = Ok u h'"
    unfolding for_each.simps by (rule bindE)
  note one = bisect_r_root [OF step assms(2,3)]
  have same: "coplanar_r h1 pl p = coplanar_r h pl p" if "p \<in> set xs" for p
    using one Cons.prems(2) that by (simp add: coplanar_r_def)
  have pre: "\<forall>p\<in>set xs. p < next_ref h1 \<and> o_vertices (polygon_objs h1 p) < next_ref h1"
    using one Cons.prems(2) by (auto intro: less_le_trans)
  note IH = Cons.IH [OF rest pre]
  have "filter (coplanar_r h1 pl) xs = filter (coplanar_r h pl) xs"
    by (rule filter_cong [OF refl]) (rule same)
  with IH one show ?case
    by auto
qed

lemma safe_Ok:
  assumes "safe n m Q" "n \<le> next_ref h" "m h = Ok a h'"
  shows "keeps n h h' \<and> Q a"
  using assms by (auto simp: safe_def split: outcome.splits)

lemma safe_descend:
  assumes "fresh_opt n child"
  shows "safe n (if ls \<noteq> [] then
                 bind (case child of None \<Rightarrow> new_BSPNode_r | Some f \<Rightarrow> ret f) (\<lambda>f.
                 bind (Partition_r fuel (Some arr) (Some f)) (\<lambda>r. ret (snd r)))
               else (ret child :: (BSPNode_r option, 'c) prog)) (fresh_opt n)"
proof (cases "ls = []")
  case True
  with assms show ?thesis by (simp add: safe_ret)
next
  case False
  have "safe n (bind (Partition_r fuel (Some arr) (Some f)) (\<lambda>r. ret (snd r))
          :: (BSPNode_r option, 'c) prog) (fresh_opt n)"
    if "fresh_tree n f" for f
    by (rule safe_bind, rule safe_Partition')
       (simp_all add: fresh_opt_def that safe_ret)
  then show ?thesis
    using False by (simp add: safe_bind safe_child_node assms)
qed


lemma bind_get_polygon_array:
  "bind (get_polygon_array a) f h = f (polygon_arrays h a) h"
  by (simp add: bind_def get_polygon_array_def)

lemma bind_get_polygon_obj:
  "bind (get_polygon_obj p) f h = f (polygon_objs h p) h"
  by (simp add: bind_def get_polygon_obj_def)

lemma bind_new_polygon_array:
  "bind (new_polygon_array ys) f h =
     f (next_ref h)
       (h\<lparr>polygon_arrays := (polygon_arrays h)(next_ref h := ys), next_ref := Suc (next_ref h)\<rparr>)"
  by (simp add: bind_def new_polygon_array_def)

lemma bind_new_BSPNode:
  "bind new_BSPNode_r f h =
     f (BSPNode_r None (next_ref h) None None)
       (h\<lparr>polygon_arrays := (polygon_arrays h)(next_ref h := []), next_ref := Suc (next_ref h)\<rparr>)"
  by (simp add: bind_def new_BSPNode_r_def new_polygon_array_def ret_def)

lemma Partition_r_root:
  assumes run: "Partition_r fuel (Some arr) None h = Ok (Some t, x) (h' :: 'c heap)"
    and al: "\<forall>p\<in>set (polygon_arrays h arr).
               p < next_ref h \<and> o_vertices (polygon_objs h p) < next_ref h"
  shows "polygon_arrays h' (polygons_r t)
           = filter (coplanar_r h (o_plane (polygon_objs h (hd (polygon_arrays h arr)))))
               (polygon_arrays h arr)
         \<and> next_ref h \<le> polygons_r t"
proof -
  define xs where "xs = polygon_arrays h arr"
  define pl where "pl = Plane_clone (o_plane (polygon_objs h (hd xs)))"
  define r where "r = next_ref h"
  define h3 where "h3 = h\<lparr>polygon_arrays := (polygon_arrays h)(r := [], Suc r := [], Suc (Suc r) := []),
                           next_ref := Suc (Suc (Suc r))\<rparr>"
  have ne: "xs \<noteq> []"
    using run by (cases fuel) (auto simp: xs_def bind_get_polygon_array ret_def)
  obtain k where fuel: "fuel = Suc k"
    using run ne by (cases fuel) (auto simp: xs_def bind_get_polygon_array)
  have pl': "pl = o_plane (polygon_objs h (hd xs))"
    by (simp add: pl_def Plane_clone_def)
  let ?F = "\<lambda>p. bisect_r pl p (Suc r) r (Suc (Suc r)) r :: (unit, 'c) prog"
  let ?D = "\<lambda>ls. if ls \<noteq> [] then
                 bind new_BSPNode_r (\<lambda>f.
                 bind (Partition_r k (Some (Suc r)) (Some f)) (\<lambda>r. ret (snd r)))
               else (ret None :: (BSPNode_r option, 'c) prog)"
  let ?E = "\<lambda>rs. if rs \<noteq> [] then
                 bind new_BSPNode_r (\<lambda>f.
                 bind (Partition_r k (Some (Suc (Suc r))) (Some f)) (\<lambda>r. ret (snd r)))
               else (ret None :: (BSPNode_r option, 'c) prog)"
  have body: "Partition_r (Suc k) (Some arr) None h =
      bind (for_each ?F xs) (\<lambda>_.
        bind (get_polygon_array (Suc r)) (\<lambda>ls.
        bind (?D ls) (\<lambda>front'.
        bind (get_polygon_array (Suc (Suc r))) (\<lambda>rs.
        bind (?E rs) (\<lambda>behind'.
          ret (Some (BSPNode_r (Some pl) r front' behind'), None)))))) h3"
    using ne
    by (simp add: xs_def [symmetric] bind_get_polygon_array bind_get_polygon_obj
        bind_new_polygon_array bind_new_BSPNode pl_def r_def h3_def fun_upd_twist
        cong: if_cong)
  from run [unfolded fuel body] obtain u h4 where
    loop: "for_each ?F xs h3 = Ok u h4"
    and tail: "bind (get_polygon_array (Suc r)) (\<lambda>ls.
        bind (?D ls) (\<lambda>front'.
        bind (get_polygon_array (Suc (Suc r))) (\<lambda>rs.
        bind (?E rs) (\<lambda>behind'.
          ret (Some (BSPNode_r (Some pl) r front' behind'), None))))) h4
          = Ok (Some t, x) h'"
    by (rule bindE)
  from tail [unfolded bind_get_polygon_array] obtain f' h5 where
    d1: "?D (polygon_arrays h4 (Suc r)) h4 = Ok f' h5"
    and tail2: "bind (?E (polygon_arrays h5 (Suc (Suc r)))) (\<lambda>behind'.
          ret (Some (BSPNode_r (Some pl) r f' behind'), None)) h5 = Ok (Some t, x) h'"
    by (rule bindE)
  from tail2 obtain b' h6 where
    d2: "?E (polygon_arrays h5 (Suc (Suc r))) h5 = Ok b' h6"
    and fin: "ret (Some (BSPNode_r (Some pl) r f' b'), None) h6 = Ok (Some t, x) h'"
    by (rule bindE)
  from fin have t: "polygons_r t = r" and h6: "h6 = h'"
    by (auto simp: ret_def)
  have pre: "\<forall>p\<in>set xs. p < next_ref h3 \<and> o_vertices (polygon_objs h3 p) < next_ref h3"
    using al by (auto simp: xs_def h3_def r_def)
  from for_each_root [OF loop _ _ pre]
  have a4: "polygon_arrays h4 r = polygon_arrays h3 r @ filter (coplanar_r h3 pl) xs"
    and n4: "next_ref h3 \<le> next_ref h4"
    by simp_all
  have "coplanar_r h3 pl = coplanar_r h pl"
    by (rule ext) (simp add: coplanar_r_def h3_def)
  with a4 have a4': "polygon_arrays h4 r = filter (coplanar_r h pl) xs"
    by (simp add: h3_def)
  have fr: "fresh_opt (next_ref h4) None"
    by (simp add: fresh_opt_def)
  have s1: "safe (next_ref h4) (?D (polygon_arrays h4 (Suc r))) (fresh_opt (next_ref h4))"
    using safe_descend [OF fr, of "polygon_arrays h4 (Suc r)" k "Suc r"]
    by (simp only: option.case)
  from safe_Ok [OF s1 le_refl d1] have k1: "keeps (next_ref h4) h4 h5"
    by simp
  have s2: "safe (next_ref h4) (?E (polygon_arrays h5 (Suc (Suc r)))) (fresh_opt (next_ref h4))"
    using safe_descend [OF fr, of "polygon_arrays h5 (Suc (Suc r))" k "Suc (Suc r)"]
    by (simp only: option.case)
  have "next_ref h4 \<le> next_ref h5"
    using k1 by (simp add: keeps_def)
  from safe_Ok [OF s2 this d2] have k2: "keeps (next_ref h4) h5 h6"
    by simp
  have "r < next_ref h4"
    using n4 by (simp add: h3_def)
  with k1 k2 have "polygon_arrays h6 r = polygon_arrays h4 r"
    by (simp add: keeps_def)
  with a4' t h6 show ?thesis
    by (simp add: pl' xs_def r_def)
qed

lemma deref_Ok: "deref x h = Ok t h' \<Longrightarrow> x = Some t"
  by (cases x) (simp_all add: deref_def ret_def throw_def)

lemma operators_start:
  assumes "op \<in> {Union_r, Intersect_r, Subtract_r}"
    and "op fuel geo1 geo2 h = Ok g (h' :: 'c heap)"
  shows "\<exists>t1 x1 h1 t2 x2 h2.
           Partition_r fuel (Some (g_polygons geo1)) None h = Ok (Some t1, x1) h1
           \<and> Partition_r fuel (Some (g_polygons geo2)) None h1 = Ok (Some t2, x2) (h2 :: 'c heap)"
proof -
  consider (U) "op = Union_r" | (I) "op = Intersect_r" | (S) "op = Subtract_r"
    using assms(1) by blast
  then show ?thesis
  proof cases
    case U
    from assms(2) [unfolded U Union_r_def] obtain r1 h1 r2 h2 t1 h3 t2 h4 where
      "Partition_r fuel (Some (g_polygons geo1)) None h = Ok r1 (h1 :: 'c heap)"
      "Partition_r fuel (Some (g_polygons geo2)) None h1 = Ok r2 (h2 :: 'c heap)"
      "deref (fst r1) h2 = Ok t1 (h3 :: 'c heap)" "deref (fst r2) h3 = Ok t2 (h4 :: 'c heap)"
      by (elim bindE)
    then show ?thesis
      by (cases r1; cases r2) (auto dest!: deref_Ok)
  next
    case I
    from assms(2) [unfolded I Intersect_r_def] obtain r1 h1 r2 h2 t1 h3 t1' h4 t2 h5 where
      "Partition_r fuel (Some (g_polygons geo1)) None h = Ok r1 (h1 :: 'c heap)"
      "Partition_r fuel (Some (g_polygons geo2)) None h1 = Ok r2 (h2 :: 'c heap)"
      "deref (fst r1) h2 = Ok t1 (h3 :: 'c heap)" "flip_r fuel t1 h3 = Ok t1' (h4 :: 'c heap)"
      "deref (fst r2) h4 = Ok t2 (h5 :: 'c heap)"
      by (elim bindE)
    then show ?thesis
      by (cases r1; cases r2) (auto dest!: deref_Ok)
  next
    case S
    from assms(2) [unfolded S Subtract_r_def] obtain r1 h1 r2 h2 t1 h3 t1' h4 t2 h5 where
      "Partition_r fuel (Some (g_polygons geo1)) None h = Ok r1 (h1 :: 'c heap)"
      "Partition_r fuel (Some (g_polygons geo2)) None h1 = Ok r2 (h2 :: 'c heap)"
      "deref (fst r1) h2 = Ok t1 (h3 :: 'c heap)" "flip_r fuel t1 h3 = Ok t1' (h4 :: 'c heap)"
      "deref (fst r2) h4 = Ok t2 (h5 :: 'c heap)"
      by (elim bindE)
    then show ?thesis
      by (cases r1; cases r2) (auto dest!: deref_Ok)
  qed
qed

lemma working_trees:
  assumes "op \<in> {Union_r, Intersect_r, Subtract_r}"
    and "op fuel geo1 geo2 h = Ok g (h' :: 'c heap)"
    and "allocated h geo1" and "allocated h geo2"
  shows "\<exists>t1 x1 h1 t2 x2 h2.
           Partition_r fuel (Some (g_polygons geo1)) None h = Ok (Some t1, x1) h1
           \<and> polygon_arrays h1 (polygons_r t1)
               = filter (coplanar_r h (first_plane h geo1)) (polygon_arrays h (g_polygons geo1))
           \<and> Partition_r fuel (Some (g_polygons geo2)) None h1 = Ok (Some t2, x2) (h2 :: 'c heap)
           \<and> polygon_arrays h2 (polygons_r t2)
               = filter (coplanar_r h (first_plane h geo2)) (polygon_arrays h (g_polygons geo2))"
proof -
  from operators_start [OF assms(1,2)] obtain t1 x1 h1 t2 x2 h2 where
    P1: "Partition_r fuel (Some (g_polygons geo1)) None h = Ok (Some t1, x1) (h1 :: 'c heap)"
    and P2: "Partition_r fuel (Some (g_polygons geo2)) None h1 = Ok (Some t2, x2) (h2 :: 'c heap)"
    by blast
  have al1: "\<forall>p\<in>set (polygon_arrays h (g_polygons geo1)).
               p < next_ref h \<and> o_vertices (polygon_objs h p) < next_ref h"
    and al2: "\<forall>p\<in>set (polygon_arrays h (g_polygons geo2)).
               p < next_ref h \<and> o_vertices (polygon_objs h p) < next_ref h"
    and g2: "g_polygons geo2 < next_ref h"
    using assms(3,4) by (simp_all add: allocated_def)
  have r1: "polygon_arrays h1 (polygons_r t1)
            = filter (coplanar_r h (first_plane h geo1)) (polygon_arrays h (g_polygons geo1))"
    using Partition_r_root [OF P1 al1] by (simp add: first_plane_def)
  have "safe (next_ref h) (Partition_r fuel (Some (g_polygons geo1)) None
           :: (BSPNode_r option \<times> BSPNode_r option, 'c) prog) (\<lambda>_. True)"
    by (rule safe_Partition') (simp_all add: fresh_opt_def)
  from safe_Ok [OF this le_refl P1] have k: "keeps (next_ref h) h h1"
    by simp
  have same: "polygon_arrays h1 (g_polygons geo2) = polygon_arrays h (g_polygons geo2)"
    using k g2 by (simp add: keeps_def)
  have objs: "polygon_objs h1 p = polygon_objs h p
              \<and> vertex_arrays h1 (o_vertices (polygon_objs h p))
                  = vertex_arrays h (o_vertices (polygon_objs h p))"
    if "p \<in> set (polygon_arrays h (g_polygons geo2))" for p
    using k al2 that by (simp add: keeps_def)
  have al2': "\<forall>p\<in>set (polygon_arrays h1 (g_polygons geo2)).
               p < next_ref h1 \<and> o_vertices (polygon_objs h1 p) < next_ref h1"
    using k al2 objs unfolding same by (auto simp: keeps_def intro: less_le_trans)
  have pl: "first_plane h1 geo2 = first_plane h geo2" if "polygon_arrays h (g_polygons geo2) \<noteq> []"
    using objs [of "hd (polygon_arrays h (g_polygons geo2))"] that
    by (simp add: first_plane_def same)
  have cop: "coplanar_r h1 pl' p = coplanar_r h pl' p"
    if "p \<in> set (polygon_arrays h (g_polygons geo2))" for p pl'
    using objs [OF that] by (simp add: coplanar_r_def)
  have "polygon_arrays h2 (polygons_r t2)
        = filter (coplanar_r h1 (first_plane h1 geo2)) (polygon_arrays h1 (g_polygons geo2))"
    using Partition_r_root [OF P2 al2'] by (simp add: first_plane_def)
  also have "\<dots> = filter (coplanar_r h (first_plane h geo2)) (polygon_arrays h (g_polygons geo2))"
  proof (cases "polygon_arrays h (g_polygons geo2) = []")
    case True
    then show ?thesis by (simp add: same)
  next
    case False
    show ?thesis
      unfolding same pl [OF False] by (rule filter_cong [OF refl]) (rule cop)
  qed
  finally show ?thesis
    using P1 P2 r1 by blast
qed

section \<open>The operators on the concrete store\<close>

lemma Union_r_ex:
  "\<exists>a h'. Union_r (Suc 0) ex_geo1 ex_geo2 ex_heap = Ok \<lparr>g_polygons = a\<rparr> h'
      \<and> polygon_arrays h' a = [1]"
  by (simp add: Union_r_def ex_heap_def ex_geo1_def ex_geo2_def heap_defs Let_def isCoplanar_def
      classify_def distance_def epsilon_def vec_defs)

lemma Intersect_r_ex:
  "\<exists>a h'. Intersect_r (Suc 0) ex_geo1 ex_geo2 ex_heap = Ok \<lparr>g_polygons = a\<rparr> h'
      \<and> polygon_arrays h' a = [40]"
  by (simp add: Intersect_r_def ex_heap_def ex_geo1_def ex_geo2_def heap_defs Let_def
      isCoplanar_def classify_def distance_def epsilon_def vec_defs)

lemma Union_r_cut_off: "Union_r 0 ex_geo1 ex_geo2 ex_heap = OutOfFuel ex_heap"
  by (simp add: Union_r_def ex_heap_def ex_geo1_def ex_geo2_def heap_defs)

section \<open>Claims\<close>

text \<open>
  C1, as stated: \<open>trim\<close> routes coplanar-same and coplanar-reverse polygons both into
  the "inside" bucket. It does not: the call is \<open>bisect(polys[i], out, out, inside, inside)\<close>
  and the third parameter of \<open>bisect\<close> is \<open>samePlane\<close>, so a coplanar polygon facing the
  same way goes to \<open>out\<close>. Here \<open>ex_up\<close> lies in the plane and faces the same way; it lands
  in "outside", "inside" stays empty, and a node without children returns it as a survivor
  (the "inside" bucket would have been discarded).
\<close>

theorem C1_coplanar_same_goes_outside:
  "map (classify ex_plane) (vertices ex_up) = [LPlane, LPlane, LPlane]
   \<and> Vector_dot (normal ex_plane) (normal (plane ex_up)) > 0
   \<and> trim_loop ex_plane [ex_up] Out = [ex_up]
   \<and> trim_loop ex_plane [ex_up] Inside = []
   \<and> trim (BSPNode (Some ex_plane) [] None None) [ex_up] = [ex_up]"
  by (simp add: trim_loop_def bisect_defs vec_defs ex_defs)

text \<open>
  C1, amended. For every node with a hyperplane and every polygon list, \<open>trim\<close> bisects
  each input polygon against the node's \<open>hyperPlane\<close>; the "outside" bucket receives, in
  input order, the front fragments and the coplanar polygons facing the same way, the
  "inside" bucket the back fragments and the coplanar polygons facing the other way. The
  outside bucket is then trimmed by \<open>front\<close> (kept as it is without one), the inside bucket
  by \<open>behind\<close> (dropped without one).
\<close>

theorem C1_trim_routing:
  "trim_loop hp polys Out = concat (map (outside_part hp) polys)
   \<and> trim_loop hp polys Inside = concat (map (inside_part hp) polys)
   \<and> trim (BSPNode (Some hp) ps f b) polys =
       (case f of Some fr \<Rightarrow> trim fr (trim_loop hp polys Out) | None \<Rightarrow> trim_loop hp polys Out)
       @ (case b of Some bh \<Rightarrow> trim bh (trim_loop hp polys Inside) | None \<Rightarrow> [])"
  by (simp add: trim_loop_eq Let_def)

theorem C1_trim_routing_witness:
  "trim_loop ex_plane [ex_up, ex_down, ex_wall] Out = [ex_up, ex_wall_front]
   \<and> trim_loop ex_plane [ex_up, ex_down, ex_wall] Inside = [ex_down, ex_wall_back]
   \<and> trim (BSPNode (Some ex_plane) [] None None) [ex_up, ex_down, ex_wall]
       = [ex_up, ex_wall_front]"
  using C1_trim_routing [of ex_plane "[ex_up, ex_down, ex_wall]" "[]" None None]
  by (simp add: spec_defs vec_defs ex_defs)

text \<open>
  C2 (the code departs from the claim). \<open>Partition\<close> assigns
  \<open>root.hyperPlane = polygons[0].plane.clone()\<close> also when a tree is supplied. The tree
  built from \<open>ex_up\<close> has the plane \<open>z = 0\<close>; partitioning \<open>ex_wall\<close> into it replaces that
  plane by the plane of \<open>ex_wall\<close>, against which \<open>ex_wall\<close> is coplanar, so it is pushed
  whole next to \<open>ex_up\<close>. Bisected against the plane the root had, it would have been
  split into a front and a back half.
\<close>

theorem C2_Partition_replaces_root_plane:
  "Partition (Suc 0) (Some [ex_up]) None = Some (Some ex_tree, None)
   \<and> hyperPlane ex_tree = Some ex_plane
   \<and> Partition (Suc 0) (Some [ex_wall]) (Some ex_tree)
       = Some (Some ex_tree_extended, Some ex_tree_extended)
   \<and> hyperPlane ex_tree_extended = Some (plane ex_wall)
   \<and> hyperPlane ex_tree_extended \<noteq> hyperPlane ex_tree
   \<and> polygons ex_tree_extended = [ex_up, ex_wall]
   \<and> front ex_tree_extended = None \<and> behind ex_tree_extended = None
   \<and> partition_loop ex_plane [ex_up] [ex_wall] Left = [ex_wall_front]
   \<and> partition_loop ex_plane [ex_up] [ex_wall] Right = [ex_wall_back]"
proof -
  have "partition_loop ex_plane [ex_up] [ex_wall] Left = [ex_wall_front]"
    "partition_loop ex_plane [ex_up] [ex_wall] Right = [ex_wall_back]"
    by (simp_all add: partition_loop_def bisect_defs vec_defs ex_defs Let_def)
  then show ?thesis
    using Partition_ex_up Partition_extend
    by (simp add: ex_tree_def ex_tree_extended_def ex_defs)
qed

text \<open>
  C3 (the code departs from the claim). The tree \<open>Partition([ex_up])\<close> builds satisfies
  the invariant. After \<open>Partition([ex_wall], tree)\<close> the root holds \<open>ex_up\<close> under the
  plane \<open>x = 0\<close>, and \<open>ex_up\<close> is not coplanar with it (its vertex \<open>(1, 0, 0)\<close> is in
  front): the invariant is broken. The boolean operators end with exactly such a call,
  \<open>BSPNode.Partition(tree2.concatPolys(), tree1)\<close>.
\<close>

theorem C3_invariant_broken_by_extension:
  "Partition (Suc 0) (Some [ex_up]) None = Some (Some ex_tree, None)
   \<and> bsp_invariant ex_tree
   \<and> Partition (Suc 0) (Some [ex_wall]) (Some ex_tree)
       = Some (Some ex_tree_extended, Some ex_tree_extended)
   \<and> \<not> bsp_invariant ex_tree_extended
   \<and> classify (Plane (Vector 1 0 0) 0) (Vector 1 0 0) = LFront"
proof -
  have "bsp_invariant ex_tree" "\<not> bsp_invariant ex_tree_extended"
    "classify (Plane (Vector 1 0 0) 0) (Vector 1 0 0) = LFront"
    by (simp_all add: ex_tree_def ex_tree_extended_def coplanar_with_def classify_def
        distance_def epsilon_def vec_defs ex_defs)
  then show ?thesis
    using Partition_ex_up Partition_extend by simp
qed

text \<open>
  C4. For every plane and polygon whose vertices are not all classified \<open>plane\<close>,
  \<open>bisect\<close> walks the consecutive vertex pairs around the loop; a front vertex goes to
  the front list only, a back vertex to the back list only, a plane vertex to both, and a
  front/back pair adds the intersection vertex \<open>lerp(v[i], v[i+1], t)\<close> with
  \<open>t = -(v[i]\<cdot>normal + p) / ((v[i+1] - v[i])\<cdot>normal)\<close> to both. A polygon with the
  original colour is then pushed onto \<open>front\<close> from the front list and onto \<open>behind\<close>
  from the back list, each only if its list has at least three vertices; nothing else is
  pushed. (Convexity is not needed.)
\<close>

theorem C4_bisect_mixed:
  assumes "\<not> (\<forall>v\<in>set (vertices polygon). classify pl v = LPlane)"
  shows "bisect pl polygon fr sp bh rp s =
     spec_emit bh (spec_backList pl (vertices polygon)) (color polygon)
       (spec_emit fr (spec_frontList pl (vertices polygon)) (color polygon) s)"
  using assms by (rule bisect_mixed)

theorem C4_bisect_mixed_witness:
  "\<not> (\<forall>v\<in>set (vertices ex_wall). classify ex_plane v = LPlane)
   \<and> spec_frontList ex_plane (vertices ex_wall) = vertices ex_wall_front
   \<and> spec_backList ex_plane (vertices ex_wall) = vertices ex_wall_back
   \<and> bisect ex_plane ex_wall (0::nat) 1 2 3 (\<lambda>_. []) =
       (\<lambda>_. [])(0 := [ex_wall_front], 2 := [ex_wall_back])"
proof -
  have h: "\<not> (\<forall>v\<in>set (vertices ex_wall). classify ex_plane v = LPlane)"
    by (simp add: classify_def distance_def epsilon_def vec_defs ex_defs)
  show ?thesis
    using h C4_bisect_mixed [OF h, of "0::nat" 1 2 3 "\<lambda>_. []"]
    by (simp add: spec_defs vec_defs ex_defs fun_upd_twist)
qed

text \<open>
  C5. \<open>bisect\<close> classifies a vertex by its signed distance \<open>d = normal\<cdot>v + p\<close>: front
  exactly when \<open>d > 1e-5\<close>, back exactly when \<open>d < -1e-5\<close>, plane otherwise, and it
  routes the polygon by that classification. When no vertex has \<open>d > 1e-5\<close> or
  \<open>d < -1e-5\<close>, the polygon itself is pushed onto \<open>samePlane\<close> if
  \<open>this.normal\<cdot>polygon.plane.normal > 0\<close> and onto \<open>reversePlane\<close> otherwise, and nothing
  is pushed onto \<open>front\<close> or \<open>behind\<close> (where these are other arrays). When some vertex
  has \<open>d > 1e-5\<close> or \<open>d < -1e-5\<close>, the polygon is not routed as coplanar: nothing is
  pushed onto \<open>samePlane\<close> or \<open>reversePlane\<close> (where these are other arrays), and \<open>front\<close>
  and \<open>behind\<close> receive what the lists \<open>newFront\<close> and \<open>newBack\<close> of the second loop make.
  Every vertex with \<open>d > 1e-5\<close> is in \<open>newFront\<close>, every vertex with \<open>d < -1e-5\<close> in
  \<open>newBack\<close>, every other vertex in both; \<open>newFront\<close> has one entry for each vertex that
  has not \<open>d < -1e-5\<close> and one for each pair of cyclic neighbours on opposite sides of the
  plane, \<open>newBack\<close> one for each vertex that has not \<open>d > 1e-5\<close> and one for each such
  pair.
\<close>

theorem C5_classify_and_coplanar:
  "distance pl v = Vector_dot (normal pl) v + plane_p pl
   \<and> (classify pl v = LFront \<longleftrightarrow> distance pl v > 1 / 100000)
   \<and> (classify pl v = LBack \<longleftrightarrow> distance pl v < - (1 / 100000))
   \<and> (classify pl v = LPlane \<longleftrightarrow>
        \<not> distance pl v > 1 / 100000 \<and> \<not> distance pl v < - (1 / 100000))
   \<and> ((\<forall>v\<in>set (vertices polygon).
          \<not> distance pl v > 1 / 100000 \<and> \<not> distance pl v < - (1 / 100000)) \<longrightarrow>
        bisect pl polygon fr sp bh rp s =
          (if Vector_dot (normal pl) (normal (plane polygon)) > 0
           then s(sp := s sp @ [polygon]) else s(rp := s rp @ [polygon]))
        \<and> (fr \<noteq> sp \<and> fr \<noteq> rp \<longrightarrow> bisect pl polygon fr sp bh rp s fr = s fr)
        \<and> (bh \<noteq> sp \<and> bh \<noteq> rp \<longrightarrow> bisect pl polygon fr sp bh rp s bh = s bh))
   \<and> ((\<exists>v\<in>set (vertices polygon).
          distance pl v > 1 / 100000 \<or> distance pl v < - (1 / 100000)) \<longrightarrow>
        bisect pl polygon fr sp bh rp s =
          emit bh (snd (bisect_walk pl (vertices polygon) (map (classify pl) (vertices polygon))))
            (color polygon)
            (emit fr (fst (bisect_walk pl (vertices polygon)
                             (map (classify pl) (vertices polygon)))) (color polygon) s)
        \<and> (sp \<noteq> fr \<and> sp \<noteq> bh \<longrightarrow> bisect pl polygon fr sp bh rp s sp = s sp)
        \<and> (rp \<noteq> fr \<and> rp \<noteq> bh \<longrightarrow> bisect pl polygon fr sp bh rp s rp = s rp)
        \<and> (\<forall>v\<in>set (vertices polygon).
              (distance pl v > 1 / 100000 \<longrightarrow>
                 v \<in> set (fst (bisect_walk pl (vertices polygon)
                                  (map (classify pl) (vertices polygon)))))
              \<and> (distance pl v < - (1 / 100000) \<longrightarrow>
                 v \<in> set (snd (bisect_walk pl (vertices polygon)
                                  (map (classify pl) (vertices polygon)))))
              \<and> (\<not> distance pl v > 1 / 100000 \<and> \<not> distance pl v < - (1 / 100000) \<longrightarrow>
                 v \<in> set (fst (bisect_walk pl (vertices polygon)
                                  (map (classify pl) (vertices polygon))))
                 \<and> v \<in> set (snd (bisect_walk pl (vertices polygon)
                                    (map (classify pl) (vertices polygon))))))
        \<and> length (fst (bisect_walk pl (vertices polygon) (map (classify pl) (vertices polygon))))
            = length (filter (\<lambda>v. \<not> distance pl v < - (1 / 100000)) (vertices polygon))
              + length (filter (\<lambda>vw. (distance pl (fst vw) > 1 / 100000
                                         \<and> distance pl (snd vw) < - (1 / 100000))
                                      \<or> (distance pl (fst vw) < - (1 / 100000)
                                         \<and> distance pl (snd vw) > 1 / 100000))
                         (zip (vertices polygon) (rotate1 (vertices polygon))))
        \<and> length (snd (bisect_walk pl (vertices polygon) (map (classify pl) (vertices polygon))))
            = length (filter (\<lambda>v. \<not> distance pl v > 1 / 100000) (vertices polygon))
              + length (filter (\<lambda>vw. (distance pl (fst vw) > 1 / 100000
                                         \<and> distance pl (snd vw) < - (1 / 100000))
                                      \<or> (distance pl (fst vw) < - (1 / 100000)
                                         \<and> distance pl (snd vw) > 1 / 100000))
                         (zip (vertices polygon) (rotate1 (vertices polygon)))))"
proof -
  let ?vs = "vertices polygon"
  let ?X = "\<lambda>vw. (distance pl (fst vw) > 1 / 100000 \<and> distance pl (snd vw) < - (1 / 100000))
                 \<or> (distance pl (fst vw) < - (1 / 100000) \<and> distance pl (snd vw) > 1 / 100000)"
  note cc = classify_cases
  have c: "classify pl v = LFront \<longleftrightarrow> distance pl v > 1 / 100000"
    "classify pl v = LBack \<longleftrightarrow> distance pl v < - (1 / 100000)"
    "classify pl v = LPlane \<longleftrightarrow>
       \<not> distance pl v > 1 / 100000 \<and> \<not> distance pl v < - (1 / 100000)"
    by (rule cc)+
  have allp: "(\<forall>v\<in>set ?vs. \<not> distance pl v > 1 / 100000 \<and> \<not> distance pl v < - (1 / 100000))
              \<longleftrightarrow> (\<forall>v\<in>set ?vs. classify pl v = LPlane)"
    by (simp only: cc(3))
  have somep: "(\<exists>v\<in>set ?vs. distance pl v > 1 / 100000 \<or> distance pl v < - (1 / 100000))
              \<longleftrightarrow> \<not> (\<forall>v\<in>set ?vs. classify pl v = LPlane)"
    by (simp only: cc(3)) blast
  have walk: "bisect_walk pl ?vs (map (classify pl) ?vs)
              = (spec_frontList pl ?vs, spec_backList pl ?vs)"
    by (rule bisect_walk_eq)
  have cross: "(\<lambda>vw. crossing (classify pl (fst vw)) (classify pl (snd vw))) = ?X"
    by (rule ext) (simp only: crossing_def cc)
  have nb: "(\<lambda>v. classify pl v \<noteq> LBack) = (\<lambda>v. \<not> distance pl v < - (1 / 100000))"
    and nf: "(\<lambda>v. classify pl v \<noteq> LFront) = (\<lambda>v. \<not> distance pl v > 1 / 100000)"
    by (rule ext, simp only: cc)+
  have lenF: "length (spec_frontList pl ?vs)
      = length (filter (\<lambda>v. \<not> distance pl v < - (1 / 100000)) ?vs)
        + length (filter ?X (zip ?vs (rotate1 ?vs)))"
    using length_frontList_filter [of pl ?vs] by (simp only: cross nb spec_pairs_def)
  have lenB: "length (spec_backList pl ?vs)
      = length (filter (\<lambda>v. \<not> distance pl v > 1 / 100000) ?vs)
        + length (filter ?X (zip ?vs (rotate1 ?vs)))"
    using length_backList_filter [of pl ?vs] by (simp only: cross nf spec_pairs_def)
  have mem: "(distance pl v > 1 / 100000 \<longrightarrow> v \<in> set (spec_frontList pl ?vs))
      \<and> (distance pl v < - (1 / 100000) \<longrightarrow> v \<in> set (spec_backList pl ?vs))
      \<and> (\<not> distance pl v > 1 / 100000 \<and> \<not> distance pl v < - (1 / 100000) \<longrightarrow>
           v \<in> set (spec_frontList pl ?vs) \<and> v \<in> set (spec_backList pl ?vs))"
    if "v \<in> set ?vs" for v
    using frontList_member [OF that, of pl] backList_member [OF that, of pl]
    by (cases "classify pl v") (auto simp: cc)
  have A: "bisect pl polygon fr sp bh rp s =
          (if Vector_dot (normal pl) (normal (plane polygon)) > 0
           then s(sp := s sp @ [polygon]) else s(rp := s rp @ [polygon]))
        \<and> (fr \<noteq> sp \<and> fr \<noteq> rp \<longrightarrow> bisect pl polygon fr sp bh rp s fr = s fr)
        \<and> (bh \<noteq> sp \<and> bh \<noteq> rp \<longrightarrow> bisect pl polygon fr sp bh rp s bh = s bh)"
    if "\<forall>v\<in>set ?vs. classify pl v = LPlane"
    using that by (auto simp: bisect_coplanar push_def)
  have B: "bisect pl polygon fr sp bh rp s =
          emit bh (spec_backList pl ?vs) (color polygon)
            (emit fr (spec_frontList pl ?vs) (color polygon) s)
        \<and> (sp \<noteq> fr \<and> sp \<noteq> bh \<longrightarrow> bisect pl polygon fr sp bh rp s sp = s sp)
        \<and> (rp \<noteq> fr \<and> rp \<noteq> bh \<longrightarrow> bisect pl polygon fr sp bh rp s rp = s rp)"
    if "\<not> (\<forall>v\<in>set ?vs. classify pl v = LPlane)"
  proof (intro conjI impI)
    show "bisect pl polygon fr sp bh rp s =
          emit bh (spec_backList pl ?vs) (color polygon)
            (emit fr (spec_frontList pl ?vs) (color polygon) s)"
      by (simp only: bisect_mixed [OF that] emit_eq)
  qed (simp_all add: bisect_mixed_other [OF that])
  show ?thesis
    unfolding allp somep walk fst_conv snd_conv
    using c A B mem lenF lenB
    by (simp only: distance_def simp_thms) blast
qed


theorem C5_classify_and_coplanar_witness:
  "map (classify ex_plane) (vertices ex_up) = [LPlane, LPlane, LPlane]
   \<and> bisect ex_plane ex_up (0::nat) 1 2 3 (\<lambda>_. []) = (\<lambda>_. [])(1 := [ex_up])
   \<and> bisect ex_plane ex_down (0::nat) 1 2 3 (\<lambda>_. []) = (\<lambda>_. [])(3 := [ex_down])
   \<and> distance ex_plane (Vector 0 0 (1 / 100000)) = 1 / 100000
   \<and> classify ex_plane (Vector 0 0 (1 / 100000)) = LPlane
   \<and> bisect ex_plane (ex_at (1 / 100000)) (0::nat) 1 2 3 (\<lambda>_. [])
       = (\<lambda>_. [])(1 := [ex_at (1 / 100000)])
   \<and> distance ex_plane (Vector 0 0 (2 / 100000)) = 2 / 100000
   \<and> classify ex_plane (Vector 0 0 (2 / 100000)) = LFront
   \<and> bisect ex_plane (ex_at (2 / 100000)) (0::nat) 1 2 3 (\<lambda>_. [])
       = (\<lambda>_. [])(0 := [ex_at (2 / 100000)])
   \<and> classify ex_plane (Vector 0 0 (- (2 / 100000))) = LBack
   \<and> bisect ex_plane (ex_at (- (2 / 100000))) (0::nat) 1 2 3 (\<lambda>_. [])
       = (\<lambda>_. [])(2 := [ex_at (- (2 / 100000))])
   \<and> map (classify ex_plane) (vertices ex_wall) = [LBack, LBack, LFront, LFront]
   \<and> bisect ex_plane ex_wall (0::nat) 1 2 3 (\<lambda>_. [])
       = (\<lambda>_. [])(0 := [ex_wall_front], 2 := [ex_wall_back])"
  using C5_classify_and_coplanar [of ex_plane "Vector 0 0 (1 / 100000)" ex_up "0::nat" 1 2 3 "\<lambda>_. []"]
    C5_classify_and_coplanar [of ex_plane "Vector 0 0 (2 / 100000)" ex_down "0::nat" 1 2 3 "\<lambda>_. []"]
    C5_classify_and_coplanar [of ex_plane "Vector 0 0 (- (2 / 100000))" "ex_at (1 / 100000)" "0::nat" 1 2 3 "\<lambda>_. []"]
    C5_classify_and_coplanar [of ex_plane "Vector 0 0 0" "ex_at (2 / 100000)" "0::nat" 1 2 3 "\<lambda>_. []"]
    C5_classify_and_coplanar [of ex_plane "Vector 0 0 0" "ex_at (- (2 / 100000))" "0::nat" 1 2 3 "\<lambda>_. []"]
    C5_classify_and_coplanar [of ex_plane "Vector 0 0 0" ex_wall "0::nat" 1 2 3 "\<lambda>_. []"]
  by (simp add: bisect_defs vec_defs ex_defs ex_at_def Let_def fun_upd_twist)




text \<open>
  C7, as stated: each call builds its working trees from copies of the input polygons.
  The operators make no copy: \<open>BSPNode.Partition(geo1.polygons)\<close> hands the caller's
  polygon objects to \<open>bisect\<close>, which pushes a coplanar polygon itself onto the node's
  array. In \<open>ex_heap\<close> the geometry \<open>ex_geo1\<close> holds the polygon object 1; the root of
  the tree built from it holds that same object 1, and so does the geometry that
  \<open>Union(ex_geo1, ex_geo2)\<close> returns.
\<close>

theorem C7_trees_hold_input_polygons:
  "polygon_arrays ex_heap (g_polygons ex_geo1) = [1]
   \<and> root_polygons (Partition_r (Suc 0) (Some (g_polygons ex_geo1)) None ex_heap) = Some [1]
   \<and> returned_polygons (Union_r (Suc 0) ex_geo1 ex_geo2 ex_heap) = Some [1]"
  by (simp add: root_polygons_def returned_polygons_def Union_r_def ex_heap_def ex_geo1_def
      ex_geo2_def heap_defs Let_def isCoplanar_def classify_def distance_def epsilon_def
      vec_defs)

text \<open>
  C7, amended. For every pair of input geometries, no call to \<open>Union\<close>, \<open>Intersect\<close> or
  \<open>Subtract\<close> mutates what the caller owns: however the call ends (it returns a geometry,
  throws, or has its recursion cut off), every object and array that existed before the
  call is unchanged; in particular each input geometry's polygon list contains the same
  polygons, with the same vertex coordinates, colours and planes, in the same order as
  before. The two working trees a call starts from are not built from copies: whenever the
  call returns, \<open>Partition\<close> has returned a tree for each input geometry, and the root of
  that tree holds, as the caller's own objects and in input order, exactly the input
  polygons that classify as coplanar with the plane of the first input polygon.
\<close>

theorem C7_inputs_not_mutated:
  assumes "op \<in> {Union_r, Intersect_r, Subtract_r}"
    and "allocated h geo1" and "allocated h geo2"
  shows "keeps (next_ref h) h (final_store (op fuel geo1 geo2 h))
    \<and> polygon_arrays (final_store (op fuel geo1 geo2 h)) (g_polygons geo1)
        = polygon_arrays h (g_polygons geo1)
    \<and> polygons_of (final_store (op fuel geo1 geo2 h)) geo1 = polygons_of h geo1
    \<and> polygon_arrays (final_store (op fuel geo1 geo2 h)) (g_polygons geo2)
        = polygon_arrays h (g_polygons geo2)
    \<and> polygons_of (final_store (op fuel geo1 geo2 h)) geo2 = polygons_of h geo2
    \<and> (\<forall>g h'. op fuel geo1 geo2 h = Ok g h' \<longrightarrow>
          (\<exists>t1 x1 h1 t2 x2 h2.
             Partition_r fuel (Some (g_polygons geo1)) None h = Ok (Some t1, x1) h1
             \<and> polygon_arrays h1 (polygons_r t1)
                 = filter (coplanar_r h (first_plane h geo1)) (polygon_arrays h (g_polygons geo1))
             \<and> Partition_r fuel (Some (g_polygons geo2)) None h1 = Ok (Some t2, x2) h2
             \<and> polygon_arrays h2 (polygons_r t2)
                 = filter (coplanar_r h (first_plane h geo2))
                     (polygon_arrays h (g_polygons geo2))))"
proof -
  have "safe (next_ref h) (op fuel geo1 geo2) (\<lambda>_. True)"
    using assms(1) safe_Union safe_Intersect safe_Subtract by auto
  then have k: "keeps (next_ref h) h (final_store (op fuel geo1 geo2 h))"
    by (rule safe_final) simp
  have frame: "polygon_arrays (final_store (op fuel geo1 geo2 h)) (g_polygons geo1)
        = polygon_arrays h (g_polygons geo1)
    \<and> polygons_of (final_store (op fuel geo1 geo2 h)) geo1 = polygons_of h geo1"
    "polygon_arrays (final_store (op fuel geo1 geo2 h)) (g_polygons geo2)
        = polygon_arrays h (g_polygons geo2)
    \<and> polygons_of (final_store (op fuel geo1 geo2 h)) geo2 = polygons_of h geo2"
    by (rule keeps_polygons_of [OF k assms(2)], rule keeps_polygons_of [OF k assms(3)])
  have trees: "\<exists>t1 x1 h1 t2 x2 h2.
             Partition_r fuel (Some (g_polygons geo1)) None h = Ok (Some t1, x1) h1
             \<and> polygon_arrays h1 (polygons_r t1)
                 = filter (coplanar_r h (first_plane h geo1)) (polygon_arrays h (g_polygons geo1))
             \<and> Partition_r fuel (Some (g_polygons geo2)) None h1 = Ok (Some t2, x2) h2
             \<and> polygon_arrays h2 (polygons_r t2)
                 = filter (coplanar_r h (first_plane h geo2))
                     (polygon_arrays h (g_polygons geo2))"
    if "op fuel geo1 geo2 h = Ok g h'" for g h'
    using assms(1) that assms(2,3) by (rule working_trees)
  from k frame trees show ?thesis
    by (intro conjI allI impI) (simp_all only:)
qed

theorem C7_inputs_not_mutated_witness:
  "allocated ex_heap ex_geo1 \<and> allocated ex_heap ex_geo2
   \<and> polygons_of ex_heap ex_geo1 = [ex_up]
   \<and> (\<exists>g h'. Union_r (Suc 0) ex_geo1 ex_geo2 ex_heap = Ok g h'
         \<and> polygons_of h' ex_geo1 = [ex_up]
         \<and> polygons_of h' ex_geo2 =
             [\<lparr>vertices = [Vector 0 0 0, Vector 2 0 0, Vector 0 2 0], color = 2,
               plane = Plane (Vector 0 0 1) 0\<rparr>])
   \<and> (\<exists>g h'. Intersect_r (Suc 0) ex_geo1 ex_geo2 ex_heap = Ok g h'
         \<and> polygons_of h' ex_geo1 = [ex_up]
         \<and> polygons_of h' ex_geo2 =
             [\<lparr>vertices = [Vector 0 0 0, Vector 2 0 0, Vector 0 2 0], color = 2,
               plane = Plane (Vector 0 0 1) 0\<rparr>])
   \<and> (\<exists>h'. Union_r 0 ex_geo1 ex_geo2 ex_heap = OutOfFuel h'
         \<and> polygons_of h' ex_geo1 = [ex_up])
   \<and> filter (coplanar_r ex_heap (first_plane ex_heap ex_geo1))
         (polygon_arrays ex_heap (g_polygons ex_geo1)) = [1]
   \<and> (\<exists>t1 x1 h1. Partition_r (Suc 0) (Some (g_polygons ex_geo1)) None ex_heap
                      = Ok (Some t1, x1) h1
         \<and> polygon_arrays h1 (polygons_r t1) = [1])"
proof -
  have a1: "allocated ex_heap ex_geo1" and a2: "allocated ex_heap ex_geo2"
    by (simp_all add: allocated_def ex_heap_def ex_geo1_def ex_geo2_def)
  have v1: "polygons_of ex_heap ex_geo1 = [ex_up]"
    and v2: "polygons_of ex_heap ex_geo2 =
             [\<lparr>vertices = [Vector 0 0 0, Vector 2 0 0, Vector 0 2 0], color = 2,
               plane = Plane (Vector 0 0 1) 0\<rparr>]"
    by (simp_all add: polygons_of_def ex_heap_def ex_geo1_def ex_geo2_def ex_up_def)
  have f1: "filter (coplanar_r ex_heap (first_plane ex_heap ex_geo1))
         (polygon_arrays ex_heap (g_polygons ex_geo1)) = [1]"
    by (simp add: coplanar_r_def first_plane_def ex_heap_def ex_geo1_def classify_def
        distance_def epsilon_def vec_defs)
  from Union_r_ex obtain a h' where
    run: "Union_r (Suc 0) ex_geo1 ex_geo2 ex_heap = Ok \<lparr>g_polygons = a\<rparr> h'"
    by blast
  from Intersect_r_ex obtain b h'' where
    run2: "Intersect_r (Suc 0) ex_geo1 ex_geo2 ex_heap = Ok \<lparr>g_polygons = b\<rparr> h''"
    by blast
  have U: "Union_r \<in> {Union_r, Intersect_r, Subtract_r}"
    and I: "Intersect_r \<in> {Union_r, Intersect_r, Subtract_r}"
    by simp_all
  note TU = C7_inputs_not_mutated [OF U a1 a2, of "Suc 0"]
  from TU v1 v2
  have u: "polygons_of h' ex_geo1 = [ex_up]"
    "polygons_of h' ex_geo2 =
             [\<lparr>vertices = [Vector 0 0 0, Vector 2 0 0, Vector 0 2 0], color = 2,
               plane = Plane (Vector 0 0 1) 0\<rparr>]"
    by (simp_all add: run final_store_def)
  from TU run f1
  have t: "\<exists>t1 x1 h1. Partition_r (Suc 0) (Some (g_polygons ex_geo1)) None ex_heap
                      = Ok (Some t1, x1) h1
         \<and> polygon_arrays h1 (polygons_r t1) = [1]"
    by (elim conjE allE [of _ "\<lparr>g_polygons = a\<rparr>"] allE [of _ h'] impE) auto
  from C7_inputs_not_mutated [OF I a1 a2, of "Suc 0"] v1 v2
  have i: "polygons_of h'' ex_geo1 = [ex_up]"
    "polygons_of h'' ex_geo2 =
             [\<lparr>vertices = [Vector 0 0 0, Vector 2 0 0, Vector 0 2 0], color = 2,
               plane = Plane (Vector 0 0 1) 0\<rparr>]"
    by (simp_all add: run2 final_store_def)
  from C7_inputs_not_mutated [OF U a1 a2, of 0] v1
  have c: "polygons_of (final_store (Union_r 0 ex_geo1 ex_geo2 ex_heap)) ex_geo1 = [ex_up]"
    by simp
  have "\<exists>h'. Union_r 0 ex_geo1 ex_geo2 ex_heap = OutOfFuel h'
         \<and> polygons_of h' ex_geo1 = [ex_up]"
    using c by (simp add: Union_r_cut_off final_store_def)
  with run run2 u i a1 a2 v1 f1 t show ?thesis
    by blast
qed

text \<open>
  C8. Every polygon \<open>bisect\<close> pushes onto any of its arrays, fragment or not, carries the
  colour of the polygon it was given, and the polygon is not dropped: for a polygon of at
  least three vertices \<open>bisect\<close> pushes at least one polygon, of that colour. When the
  polygon has a vertex in front of the plane and a vertex behind it, \<open>bisect\<close> pushes
  exactly a front fragment onto \<open>front\<close> and a back fragment onto \<open>behind\<close>, both of the
  colour of the polygon. \<open>Polygon.flip\<close> and \<open>Polygon.clone\<close> return a polygon of the same
  colour (and do return one for a polygon of at least three vertices).
\<close>

theorem C8_color_preserved:
  "(\<forall>a. \<exists>new. bisect pl polygon fr sp bh rp s a = s a @ new
             \<and> (\<forall>q\<in>set new. color q = color polygon))
   \<and> (3 \<le> length (vertices polygon) \<longrightarrow>
        (\<exists>a\<in>{fr, sp, bh, rp}. \<exists>q new.
            bisect pl polygon fr sp bh rp s a = s a @ q # new \<and> color q = color polygon)
        \<and> (\<exists>q. Polygon_flip polygon = Inr q \<and> color q = color polygon)
        \<and> (\<exists>q. Polygon_clone polygon = Inr q \<and> color q = color polygon))
   \<and> ((\<exists>v\<in>set (vertices polygon). classify pl v = LFront)
        \<and> (\<exists>v\<in>set (vertices polygon). classify pl v = LBack) \<longrightarrow>
        (\<exists>f b. color f = color polygon \<and> color b = color polygon
           \<and> vertices f = spec_frontList pl (vertices polygon)
           \<and> vertices b = spec_backList pl (vertices polygon)
           \<and> bisect pl polygon fr sp bh rp s = push bh b (push fr f s)))
   \<and> (\<forall>q. Polygon_flip polygon = Inr q \<longrightarrow> color q = color polygon)
   \<and> (\<forall>q. Polygon_clone polygon = Inr q \<longrightarrow> color q = color polygon)"
proof -
  have "3 \<le> length (vertices polygon) \<Longrightarrow> \<exists>q. Polygon_clone polygon = Inr q"
    by (simp add: Polygon_clone_def Polygon_new_def)
  moreover have "3 \<le> length (vertices polygon) \<Longrightarrow> \<exists>q. Polygon_flip polygon = Inr q"
    by (simp add: Polygon_flip_def Polygon_clone_def Polygon_new_def)
  ultimately show ?thesis
    using bisect_color [of pl polygon fr sp bh rp s] Polygon_clone_color [of polygon]
      Polygon_flip_color [of polygon] bisect_pushes_one [of polygon fr sp bh rp pl s]
      bisect_split [of polygon pl fr sp bh rp s]
    by blast
qed

theorem C8_color_preserved_witness:
  "3 \<le> length (vertices ex_wall)
   \<and> classify ex_plane (Vector 0 1 1) = LFront \<and> classify ex_plane (Vector 0 0 (- 1)) = LBack
   \<and> bisect ex_plane ex_wall (0::nat) 1 2 3 (\<lambda>_. [])
       = push 2 ex_wall_back (push 0 ex_wall_front (\<lambda>_. []))
   \<and> color ex_wall = 3 \<and> color ex_wall_front = 3 \<and> color ex_wall_back = 3
   \<and> (\<exists>q. Polygon_flip ex_wall = Inr q \<and> color q = 3)
   \<and> (\<exists>q. Polygon_clone ex_wall = Inr q \<and> color q = 3)"
proof -
  have v: "Vector 0 1 1 \<in> set (vertices ex_wall)" "Vector 0 0 (- 1) \<in> set (vertices ex_wall)"
    by (simp_all add: ex_defs)
  have c: "classify ex_plane (Vector 0 1 1) = LFront"
    "classify ex_plane (Vector 0 0 (- 1)) = LBack"
    by (simp_all add: classify_def distance_def epsilon_def vec_defs ex_defs)
  have F: "\<exists>v\<in>set (vertices ex_wall). classify ex_plane v = LFront"
    using v(1) c(1) by blast
  have B: "\<exists>v\<in>set (vertices ex_wall). classify ex_plane v = LBack"
    using v(2) c(2) by blast
  have three: "3 \<le> length (vertices ex_wall)"
    by (simp add: ex_defs)
  note T = C8_color_preserved [of ex_plane ex_wall "0::nat" 1 2 3 "\<lambda>_. []"]
  from T F B obtain f b where fb: "color f = color ex_wall" "color b = color ex_wall"
    "vertices f = spec_frontList ex_plane (vertices ex_wall)"
    "vertices b = spec_backList ex_plane (vertices ex_wall)"
    "bisect ex_plane ex_wall (0::nat) 1 2 3 (\<lambda>_. []) = push 2 b (push 0 f (\<lambda>_. []))"
    by blast
  have run: "bisect ex_plane ex_wall (0::nat) 1 2 3 (\<lambda>_. [])
       = push 2 ex_wall_back (push 0 ex_wall_front (\<lambda>_. []))"
    by (simp add: bisect_defs vec_defs ex_defs Let_def)
  from T three have "\<exists>q. Polygon_flip ex_wall = Inr q \<and> color q = color ex_wall"
    "\<exists>q. Polygon_clone ex_wall = Inr q \<and> color q = color ex_wall"
    by blast+
  moreover have "color ex_wall = 3" "color ex_wall_front = 3" "color ex_wall_back = 3"
    by (simp_all add: ex_defs)
  ultimately show ?thesis
    using three c run by simp
qed

text \<open>
  C9. \<open>Partition\<close> called with an empty or an absent polygon list returns an absent
  result, leaves the supplied tree (if any) as it was, and raises nothing; it does so
  whatever the fuel. On the store it neither throws nor changes any object or array.
\<close>

theorem C9_Partition_empty:
  "Partition fuel None tree = Some (None, tree)
   \<and> Partition fuel (Some []) tree = Some (None, tree)
   \<and> Partition_r fuel None node h = Ok (None, node) h
   \<and> Partition_r fuel (Some a) node (h\<lparr>polygon_arrays := (polygon_arrays h)(a := [])\<rparr>)
       = Ok (None, node) (h\<lparr>polygon_arrays := (polygon_arrays h)(a := [])\<rparr>)"
  by (cases fuel) (simp_all add: ret_def bind_def get_polygon_array_def)

text \<open>
  C10. A node whose \<open>hyperPlane\<close> is absent, in particular a freshly constructed one,
  trims nothing: \<open>trim\<close> returns the input polygons, unchanged and in the same order.
  On the store, the list returned is a newly allocated array with the contents of the
  input array, and nothing else changes.
\<close>

theorem C10_trim_no_hyperPlane:
  "trim (BSPNode None ps f b) polys = polys \<and> trim new_BSPNode polys = polys
   \<and> trim_r (BSPNode_r None a f' b') polysArr h =
       Ok (next_ref h)
          (h\<lparr>polygon_arrays := (polygon_arrays h)(next_ref h := polygon_arrays h polysArr),
             next_ref := Suc (next_ref h)\<rparr>)"
  by (simp add: new_BSPNode_def bind_def get_polygon_array_def new_polygon_array_def)

end
